theory Spec2Isabelle
  imports Complex_Main "HOL-Library.Word" "HOL-Library.Log_Nat"
begin

section \<open>Python values and exceptions\<close>

text \<open>
  The notebook \<^verbatim>\<open>Vector_Database_Setup.ipynb\<close> is embedded function by function.
  An exception is a value of \<open>exn\<close>; a function that may raise returns \<open>exn + 'a\<close>.
  Python \<^verbatim>\<open>int\<close> is \<open>int\<close>. A Python \<^verbatim>\<open>float\<close> is the rational it denotes
  (\<open>rat\<close>); infinities and NaN are outside the model. The arithmetic of the image
  normalizer is rounded as the machine rounds it (\<open>float64\<close> below); the one product
  of the reconciler, \<^verbatim>\<open>number_owned * float(price)\<close>, is taken exactly. Python
  \<^verbatim>\<open>str\<close> is \<open>string\<close>, read as the UTF-8 bytes of the text.
\<close>

datatype exn =
    ZeroDivisionError
  | AttributeError
  | ValueError
  | TypeError
  | KeyError
  | IndexError
  | Cv2Error
  | ExternalError string

text \<open>\<^verbatim>\<open>int(x)\<close> on a float truncates toward zero.\<close>

definition py_trunc :: "rat \<Rightarrow> int" where
  "py_trunc r = (if 0 \<le> r then \<lfloor>r\<rfloor> else \<lceil>r\<rceil>)"

text \<open>
  Rounding to a double (IEEE 754 binary64): the nearest number with a significand
  of 53 bits, a tie going to the even significand. \<open>binade x\<close> is \<open>\<lfloor>log\<^sub>2 x\<rfloor>\<close> for
  \<open>x > 0\<close>, found from the bit lengths of numerator and denominator. The range of
  the exponent is not modelled: \<open>float64\<close> is the machine's rounding for every
  value of magnitude between \<open>2\<^sup>-\<^sup>1\<^sup>0\<^sup>2\<^sup>2\<close> and \<open>2\<^sup>1\<^sup>0\<^sup>2\<^sup>4\<close>, which covers the
  quotients and products of array dimensions and target sizes.
\<close>

definition round_even :: "rat \<Rightarrow> int" where
  "round_even x =
     (let f = \<lfloor>x\<rfloor>; d = x - of_int f
      in if d < 1 / 2 then f else if 1 / 2 < d then f + 1 else if even f then f else f + 1)"

definition binade :: "rat \<Rightarrow> int" where
  "binade x =
     (let d = bitlen (fst (quotient_of x)) - bitlen (snd (quotient_of x))
      in if 2 powi d \<le> x then d else d - 1)"

definition float64 :: "rat \<Rightarrow> rat" where
  "float64 x =
     (if x = 0 then 0
      else let e = binade \<bar>x\<bar> - 52
           in sgn x * of_int (round_even (\<bar>x\<bar> / 2 powi e)) * 2 powi e)"

text \<open>
  \<^verbatim>\<open>a / b\<close> on two integers is the correctly rounded quotient. \<^verbatim>\<open>n * x\<close> with an
  integer and a float converts the integer, then multiplies and rounds.
\<close>

definition int_truediv :: "int \<Rightarrow> int \<Rightarrow> rat" where
  "int_truediv a b = float64 (of_int a / of_int b)"

definition int_mul_float :: "int \<Rightarrow> rat \<Rightarrow> rat" where
  "int_mul_float n x = float64 (float64 (of_int n) * x)"


section \<open>Image normalizer\<close>

text \<open>
  \<^verbatim>\<open>cv2.imread\<close> yields an array of shape \<open>(h, w, 3)\<close> of \<^verbatim>\<open>uint8\<close>: a list of
  \<open>h\<close> rows, each a list of \<open>w\<close> pixels, each pixel three bytes.
\<close>

type_synonym pixel = "8 word \<times> 8 word \<times> 8 word"
type_synonym image = "pixel list list"

definition img_height :: "image \<Rightarrow> nat" where
  "img_height img = length img"

definition img_width :: "image \<Rightarrow> nat" where
  "img_width img = (case img of [] \<Rightarrow> 0 | r # _ \<Rightarrow> length r)"

definition has_shape :: "image \<Rightarrow> nat \<Rightarrow> nat \<Rightarrow> bool" where
  "has_shape img h w \<longleftrightarrow> length img = h \<and> (\<forall>r \<in> set img. length r = w)"

text \<open>
  The interpolation of \<^verbatim>\<open>cv2.resize\<close> is a parameter: \<open>smp img new_w new_h i j\<close> is
  the pixel that the library computes for row \<open>i\<close>, column \<open>j\<close> of the output.
  What is modelled of the library is its contract on sizes: an empty target size
  (a width or height \<open>\<le> 0\<close>, with no scale factors given) is rejected with
  \<^verbatim>\<open>cv2.error\<close>, and otherwise the output has \<open>new_h\<close> rows of \<open>new_w\<close> pixels.
\<close>

type_synonym resampler = "image \<Rightarrow> nat \<Rightarrow> nat \<Rightarrow> nat \<Rightarrow> nat \<Rightarrow> pixel"

definition cv2_resize :: "resampler \<Rightarrow> image \<Rightarrow> int \<times> int \<Rightarrow> exn + image" where
  "cv2_resize smp img dsize =
     (let new_w = fst dsize; new_h = snd dsize in
      if new_w \<le> 0 \<or> new_h \<le> 0 then Inl Cv2Error
      else Inr (map (\<lambda>i. map (\<lambda>j. smp img (nat new_w) (nat new_h) i j) [0..<nat new_w])
                  [0..<nat new_h]))"

text \<open>\<^verbatim>\<open>np.full((n, n, 3), 255, dtype=np.uint8)\<close>; a negative dimension raises.\<close>

definition white :: pixel where
  "white = (255, 255, 255)"

definition np_full :: "int \<Rightarrow> pixel \<Rightarrow> exn + image" where
  "np_full n v =
     (if n < 0 then Inl ValueError
      else Inr (replicate (nat n) (replicate (nat n) v)))"

text \<open>
  \<^verbatim>\<open>dst[r0:r1, c0:c1, :] = src\<close>. Modelled where the slice lies inside \<open>dst\<close> and
  \<open>src\<close> has the shape of the slice; numpy's wrapping of negative bounds, its
  clipping of bounds past the end and its broadcasting are not modelled and are
  returned as \<^verbatim>\<open>ValueError\<close>. By the lemmas \<open>new_size_le\<close> and \<open>pad_bounds\<close>
  below, \<open>resize_with_padding\<close> does not get there for a target size up to
  \<open>2\<^sup>5\<^sup>0\<close>: once \<^verbatim>\<open>cv2.resize\<close> has accepted the new size, the slice lies inside
  the canvas.
\<close>

definition assign_block :: "image \<Rightarrow> int \<Rightarrow> int \<Rightarrow> int \<Rightarrow> int \<Rightarrow> image \<Rightarrow> exn + image" where
  "assign_block dst r0 r1 c0 c1 src =
     (if 0 \<le> r0 \<and> r0 \<le> r1 \<and> r1 \<le> int (img_height dst)
         \<and> 0 \<le> c0 \<and> c0 \<le> c1 \<and> c1 \<le> int (img_width dst)
         \<and> has_shape src (nat (r1 - r0)) (nat (c1 - c0))
      then Inr (map (\<lambda>i. map (\<lambda>j.
                  if nat r0 \<le> i \<and> i < nat r1 \<and> nat c0 \<le> j \<and> j < nat c1
                  then src ! (i - nat r0) ! (j - nat c0)
                  else dst ! i ! j) [0..<img_width dst]) [0..<img_height dst])
      else Inl ValueError)"

definition new_size :: "nat \<Rightarrow> nat \<Rightarrow> int \<Rightarrow> int \<times> int" where
  "new_size h w tgt_size =
     (let scale = min (int_truediv tgt_size (int h)) (int_truediv tgt_size (int w));
          new_w = py_trunc (int_mul_float (int w) scale);
          new_h = py_trunc (int_mul_float (int h) scale)
      in (new_w, new_h))"

definition resize_with_padding :: "resampler \<Rightarrow> image \<Rightarrow> int \<Rightarrow> exn + image" where
  "resize_with_padding smp img tgt_size =
     (let h = img_height img; w = img_width img in
      if h = 0 \<or> w = 0 then Inl ZeroDivisionError
      else
        let new_w = fst (new_size h w tgt_size);
            new_h = snd (new_size h w tgt_size)
        in case cv2_resize smp img (new_w, new_h) of
             Inl e \<Rightarrow> Inl e
           | Inr resized_img \<Rightarrow>
               (case np_full tgt_size white of
                  Inl e \<Rightarrow> Inl e
                | Inr padded_img \<Rightarrow>
                    let pad_w = (tgt_size - new_w) div 2;
                        pad_h = (tgt_size - new_h) div 2
                    in assign_block padded_img pad_h (pad_h + new_h) pad_w (pad_w + new_w)
                         resized_img))"


section \<open>Embedding and batch ingestion\<close>

text \<open>
  The collaborators of the ingestion are parameters, gathered in one record:
  the directory listing, the image decoder (\<^verbatim>\<open>cv2.imread\<close> returns \<^verbatim>\<open>None\<close> for a
  file it cannot decode), the interpolation, the embedding model
  (\<^verbatim>\<open>img_to_array\<close>, \<^verbatim>\<open>expand_dims\<close>, \<^verbatim>\<open>preprocess_input\<close>, \<^verbatim>\<open>predict\<close>,
  \<^verbatim>\<open>flatten\<close>), and the outcome of the \<open>k\<close>-th call of \<^verbatim>\<open>index.upsert\<close>
  (\<open>None\<close>: it returns; \<open>Some e\<close>: it raises \<open>e\<close>), counted from \<open>0\<close>.
\<close>

type_synonym vector = "rat list"

record world =
  listdir :: "string \<Rightarrow> string list"
  imread :: "string \<Rightarrow> image option"
  interp :: resampler
  predict :: "image \<Rightarrow> exn + vector"
  upsert_outcome :: "nat \<Rightarrow> exn option"

definition path_join :: "string \<Rightarrow> string \<Rightarrow> string" where
  "path_join d n =
     (if n \<noteq> [] \<and> hd n = CHR ''/'' then n
      else if d = [] \<or> last d = CHR ''/'' then d @ n
      else d @ ''/'' @ n)"

definition preprocess_image_with_padding :: "world \<Rightarrow> string \<Rightarrow> int \<times> int \<Rightarrow> exn + image" where
  "preprocess_image_with_padding wd img_path tgt_size =
     (case imread wd img_path of
        None \<Rightarrow> Inl AttributeError
      | Some img \<Rightarrow> resize_with_padding (interp wd) img (fst tgt_size))"

definition embed_image :: "world \<Rightarrow> string \<Rightarrow> exn + vector" where
  "embed_image wd img_path =
     (case preprocess_image_with_padding wd img_path (224, 224) of
        Inl e \<Rightarrow> Inl e
      | Inr img_array \<Rightarrow> predict wd img_array)"

text \<open>
  The state of a run: the \<^verbatim>\<open>batch\<close> list, the calls of \<^verbatim>\<open>index.upsert\<close> made so far
  (namespace and vectors, in order), and the lines printed.
\<close>

record vec =
  vec_id :: string
  vec_values :: vector

datatype line =
    UpsertedBatch int
  | UpsertedFinal nat
  | ErrorProcessing string exn

record run =
  batch :: "vec list"
  calls :: "(string \<times> vec list) list"
  printed :: "line list"

definition index_upsert :: "world \<Rightarrow> vec list \<Rightarrow> string \<Rightarrow> run \<Rightarrow> run \<times> exn option" where
  "index_upsert wd vectors namespace st =
     (st\<lparr>calls := calls st @ [(namespace, vectors)]\<rparr>, upsert_outcome wd (length (calls st)))"

text \<open>
  One iteration of the \<^verbatim>\<open>for\<close> loop. The \<^verbatim>\<open>try\<close> block covers the embedding, the
  append and the upsert of a full batch; an exception from any of them is printed
  and the loop goes on, the statements after the raising one being skipped.
\<close>

definition loop_body :: "world \<Rightarrow> string \<Rightarrow> int \<Rightarrow> string \<Rightarrow> run \<Rightarrow> string \<Rightarrow> run" where
  "loop_body wd image_dir batch_size namespace st img_name =
     (case embed_image wd (path_join image_dir img_name) of
        Inl e \<Rightarrow> st\<lparr>printed := printed st @ [ErrorProcessing img_name e]\<rparr>
      | Inr embedding \<Rightarrow>
          let st1 = st\<lparr>batch := batch st @ [\<lparr>vec_id = img_name, vec_values = embedding\<rparr>]\<rparr>
          in if int (length (batch st1)) \<ge> batch_size
             then (case index_upsert wd (batch st1) namespace st1 of
                     (st2, Some e) \<Rightarrow> st2\<lparr>printed := printed st2 @ [ErrorProcessing img_name e]\<rparr>
                   | (st2, None) \<Rightarrow>
                       st2\<lparr>printed := printed st2 @ [UpsertedBatch batch_size], batch := []\<rparr>)
             else st1)"

definition run0 :: run where
  "run0 = \<lparr>batch = [], calls = [], printed = []\<rparr>"

text \<open>
  The whole function returns the final state and the exception that left it, if
  any: the last upsert is outside the \<^verbatim>\<open>try\<close>.
\<close>

definition batch_upsert_embeddings :: "world \<Rightarrow> string \<Rightarrow> int \<Rightarrow> string \<Rightarrow> run \<times> exn option" where
  "batch_upsert_embeddings wd image_dir batch_size namespace =
     (let st = foldl (loop_body wd image_dir batch_size namespace) run0 (listdir wd image_dir)
      in if batch st \<noteq> []
         then (case index_upsert wd (batch st) namespace st of
                 (st2, Some e) \<Rightarrow> (st2, Some e)
               | (st2, None) \<Rightarrow>
                   (st2\<lparr>printed := printed st2 @ [UpsertedFinal (length (batch st2))]\<rparr>, None))
         else (st, None))"


section \<open>Metadata key\<close>

text \<open>
  A query result carries its matches in ranking order; each match has the identifier
  of an index record (the file name of the image) and a score.
\<close>

record match =
  match_id :: string
  match_score :: rat

record query_results =
  matches :: "match list"

text \<open>\<^verbatim>\<open>s.split(sep)\<close> for a separator of one character: never an empty list.\<close>

fun py_split :: "char \<Rightarrow> string \<Rightarrow> string list" where
  "py_split sep [] = [[]]"
| "py_split sep (c # cs) =
     (if c = sep then [] # py_split sep cs
      else (case py_split sep cs of
              p # ps \<Rightarrow> (c # p) # ps
            | [] \<Rightarrow> [[c]]))"

definition get_card_id :: "query_results \<Rightarrow> exn + string" where
  "get_card_id qr =
     (case matches qr of
        [] \<Rightarrow> Inl IndexError
      | m # _ \<Rightarrow>
          (case py_split (CHR ''.'') (match_id m) of
             [] \<Rightarrow> Inl IndexError
           | p # _ \<Rightarrow> Inr p))"


section \<open>Catalog reconciler\<close>

text \<open>
  The values of a decoded JSON document and of the cells of a row. A Python
  \<^verbatim>\<open>dict\<close> is an association list without repeated keys, in insertion order.
\<close>

datatype pyval =
    PNone
  | PBool bool
  | PInt int
  | PFloat rat
  | PStr string
  | PList "pyval list"
  | PDict "(string \<times> pyval) list"

type_synonym pydict = "(string \<times> pyval) list"

definition dict_item :: "pydict \<Rightarrow> string \<Rightarrow> exn + pyval" where
  "dict_item d k = (case map_of d k of None \<Rightarrow> Inl KeyError | Some v \<Rightarrow> Inr v)"

definition dict_get :: "pydict \<Rightarrow> string \<Rightarrow> pyval \<Rightarrow> pyval" where
  "dict_get d k dflt = (case map_of d k of None \<Rightarrow> dflt | Some v \<Rightarrow> v)"

fun dict_set :: "string \<Rightarrow> pyval \<Rightarrow> pydict \<Rightarrow> pydict" where
  "dict_set k v [] = [(k, v)]"
| "dict_set k v ((k', v') # d) =
     (if k' = k then (k, v) # d else (k', v') # dict_set k v d)"

text \<open>
  The conversions of the Python library that the reconciler relies on are
  parameters: \<^verbatim>\<open>float(s)\<close> and \<^verbatim>\<open>int(s)\<close> on a string (\<open>None\<close>: \<^verbatim>\<open>ValueError\<close>),
  and the text that \<^verbatim>\<open>str\<close> gives for a float, a list or a dict.
\<close>

record pylib =
  str_to_float :: "string \<Rightarrow> rat option"
  str_to_int :: "string \<Rightarrow> int option"
  py_repr :: "pyval \<Rightarrow> string"

definition py_float :: "pylib \<Rightarrow> pyval \<Rightarrow> exn + rat" where
  "py_float lib v =
     (case v of
        PStr s \<Rightarrow> (case str_to_float lib s of None \<Rightarrow> Inl ValueError | Some r \<Rightarrow> Inr r)
      | PFloat r \<Rightarrow> Inr r
      | PInt i \<Rightarrow> Inr (of_int i)
      | PBool b \<Rightarrow> Inr (if b then 1 else 0)
      | _ \<Rightarrow> Inl TypeError)"

definition py_int :: "pylib \<Rightarrow> pyval \<Rightarrow> exn + int" where
  "py_int lib v =
     (case v of
        PStr s \<Rightarrow> (case str_to_int lib s of None \<Rightarrow> Inl ValueError | Some i \<Rightarrow> Inr i)
      | PFloat r \<Rightarrow> Inr (py_trunc r)
      | PInt i \<Rightarrow> Inr i
      | PBool b \<Rightarrow> Inr (if b then 1 else 0)
      | _ \<Rightarrow> Inl TypeError)"

text \<open>\<^verbatim>\<open>str(n)\<close> for an integer: decimal digits, \<^verbatim>\<open>-\<close> in front of a negative one.\<close>

definition digit_char :: "nat \<Rightarrow> char" where
  "digit_char d = ''0123456789'' ! d"

fun nat_digits :: "nat \<Rightarrow> string" where
  "nat_digits n =
     (if n < 10 then [digit_char n] else nat_digits (n div 10) @ [digit_char (n mod 10)])"

declare nat_digits.simps [simp del]

definition str_int :: "int \<Rightarrow> string" where
  "str_int i = (if i < 0 then CHR ''-'' # nat_digits (nat (- i)) else nat_digits (nat i))"

text \<open>
  \<^verbatim>\<open>s.replace(old, new)\<close> for a non-empty \<open>old\<close>: the occurrences are replaced from
  the left, without overlap. The em dash is the three bytes \<open>E2 80 94\<close> of its
  UTF-8 form.
\<close>

function str_replace :: "string \<Rightarrow> string \<Rightarrow> string \<Rightarrow> string" where
  "str_replace old new [] = []"
| "str_replace old new (c # cs) =
     (if old \<noteq> [] \<and> take (length old) (c # cs) = old
      then new @ str_replace old new (drop (length old) (c # cs))
      else c # str_replace old new cs)"
  by pat_completeness auto
termination
  by (relation "measure (\<lambda>(old, new, s). length s)") auto

definition em_dash :: string where
  "em_dash = [CHR 0xE2, CHR 0x80, CHR 0x94]"

text \<open>The fields read from \<^verbatim>\<open>card_data\<close> that can raise.\<close>

definition card_type_line :: "pydict \<Rightarrow> exn + pyval" where
  "card_type_line card_data =
     (case dict_get card_data ''type_line'' (PStr []) of
        PStr s \<Rightarrow> Inr (PStr (str_replace em_dash ''-'' s))
      | _ \<Rightarrow> Inl AttributeError)"

definition card_price :: "pydict \<Rightarrow> exn + pyval" where
  "card_price card_data =
     (case dict_get card_data ''prices'' (PDict []) of
        PDict prices \<Rightarrow> Inr (dict_get prices ''usd'' (PStr []))
      | _ \<Rightarrow> Inl AttributeError)"

text \<open>
  The \<^verbatim>\<open>for row in rows\<close> loop: the first row whose \<^verbatim>\<open>id\<close> equals the card's is
  updated and the loop stops. The cells of a row read from the file are strings, and
  a string equals only an equal string, so \<^verbatim>\<open>==\<close> is equality of values here. The
  result is \<^verbatim>\<open>row_exists\<close> and the rows.
\<close>

fun update_rows :: "pylib \<Rightarrow> pyval \<Rightarrow> pyval \<Rightarrow> pydict list \<Rightarrow> exn + (bool \<times> pydict list)" where
  "update_rows lib cid price [] = Inr (False, [])"
| "update_rows lib cid price (row # rows) =
     (case dict_item row ''id'' of
        Inl e \<Rightarrow> Inl e
      | Inr rid \<Rightarrow>
          if rid = cid then
            (case dict_item row ''number_owned'' of
               Inl e \<Rightarrow> Inl e
             | Inr owned \<Rightarrow>
                 (case py_int lib owned of
                    Inl e \<Rightarrow> Inl e
                  | Inr n \<Rightarrow>
                      let row1 = dict_set ''number_owned'' (PInt (n + 1)) row
                      in (case py_float lib price of
                            Inl e \<Rightarrow> Inl e
                          | Inr p \<Rightarrow>
                              Inr (True,
                                   dict_set ''total_value'' (PFloat (of_int (n + 1) * p)) row1
                                     # rows))))
          else
            (case update_rows lib cid price rows of
               Inl e \<Rightarrow> Inl e
             | Inr (row_exists, rows') \<Rightarrow> Inr (row_exists, row # rows')))"

definition new_row :: "pydict \<Rightarrow> pyval \<Rightarrow> pyval \<Rightarrow> pyval \<Rightarrow> pyval \<Rightarrow> rat \<Rightarrow> pydict" where
  "new_row card_data cid name type_line price p =
     [(''id'', cid),
      (''name'', name),
      (''mana_cost'', dict_get card_data ''mana_cost'' (PStr [])),
      (''cmc'', dict_get card_data ''cmc'' (PInt 0)),
      (''type_line'', type_line),
      (''colors'', dict_get card_data ''colors'' (PList [])),
      (''color_identity'', dict_get card_data ''color_identity'' (PList [])),
      (''set_name'', dict_get card_data ''set_name'' (PStr [])),
      (''rarity'', dict_get card_data ''rarity'' (PStr [])),
      (''full_art'', dict_get card_data ''full_art'' (PBool False)),
      (''price'', price),
      (''number_owned'', PInt 1),
      (''total_value'', PFloat p)]"

text \<open>
  The part of \<^verbatim>\<open>add_card_data_to_csv\<close> between the call of \<^verbatim>\<open>get_card_details\<close>
  and the rewrite of the file: it works on the list \<^verbatim>\<open>rows\<close> in memory.
\<close>

definition merge_card :: "pylib \<Rightarrow> pyval \<Rightarrow> pydict list \<Rightarrow> exn + pydict list" where
  "merge_card lib response rows =
     (case response of
        PDict card_data \<Rightarrow>
          (case dict_item card_data ''id'' of
             Inl e \<Rightarrow> Inl e
           | Inr cid \<Rightarrow>
          (case dict_item card_data ''name'' of
             Inl e \<Rightarrow> Inl e
           | Inr name \<Rightarrow>
          (case card_type_line card_data of
             Inl e \<Rightarrow> Inl e
           | Inr type_line \<Rightarrow>
          (case card_price card_data of
             Inl e \<Rightarrow> Inl e
           | Inr price \<Rightarrow>
          (case update_rows lib cid price rows of
             Inl e \<Rightarrow> Inl e
           | Inr (row_exists, rows1) \<Rightarrow>
               if \<not> row_exists then
                 (case py_float lib price of
                    Inl e \<Rightarrow> Inl e
                  | Inr p \<Rightarrow> Inr (rows1 @ [new_row card_data cid name type_line price p]))
               else Inr rows1)))))
      | _ \<Rightarrow> Inl TypeError)"

text \<open>
  The ledger file. Its content is the table it holds: the rows in order, each the
  list of its cells by column name; the CSV quoting that carries the cells is not
  modelled. \<^verbatim>\<open>csv.DictReader\<close> gives every cell as a string. \<^verbatim>\<open>csv.DictWriter\<close>
  writes, for each of its field names, the cell of the row or the empty string,
  \<^verbatim>\<open>None\<close> as the empty string and any other value by \<^verbatim>\<open>str\<close>; a row with a key
  that is not a field name raises \<^verbatim>\<open>ValueError\<close>, the rows before it being written
  already. The file is opened for writing, which empties it, before the rows are
  written; that the path can be opened is assumed.
\<close>

type_synonym table = "(string \<times> string) list list"
type_synonym files = "string \<Rightarrow> table option"

definition fieldnames :: "string list" where
  "fieldnames = [''id'', ''name'', ''mana_cost'', ''cmc'', ''type_line'', ''colors'',
     ''color_identity'', ''set_name'', ''rarity'', ''full_art'', ''price'',
     ''number_owned'', ''total_value'']"

definition csv_read :: "table \<Rightarrow> pydict list" where
  "csv_read t = map (map (\<lambda>(k, s). (k, PStr s))) t"

definition cell_text :: "pylib \<Rightarrow> pyval \<Rightarrow> string" where
  "cell_text lib v =
     (case v of
        PStr s \<Rightarrow> s
      | PNone \<Rightarrow> []
      | PInt i \<Rightarrow> str_int i
      | PBool b \<Rightarrow> (if b then ''True'' else ''False'')
      | _ \<Rightarrow> py_repr lib v)"

definition csv_line :: "pylib \<Rightarrow> pydict \<Rightarrow> (string \<times> string) list" where
  "csv_line lib row = map (\<lambda>k. (k, cell_text lib (dict_get row k (PStr [])))) fieldnames"

fun writerows :: "pylib \<Rightarrow> pydict list \<Rightarrow> table \<times> exn option" where
  "writerows lib [] = ([], None)"
| "writerows lib (row # rows) =
     (if \<exists>k \<in> set (map fst row). k \<notin> set fieldnames then ([], Some ValueError)
      else (case writerows lib rows of (t, e) \<Rightarrow> (csv_line lib row # t, e)))"

text \<open>
  The lookup service is a parameter: \<open>net url\<close> is the decoded JSON body of the
  response to a GET of \<open>url\<close>, or the exception of the request or of the decoder.
\<close>

definition get_card_details :: "(string \<Rightarrow> exn + pyval) \<Rightarrow> string \<Rightarrow> exn + pyval" where
  "get_card_details net card_id = net (''https://api.scryfall.com/cards/'' @ card_id)"

text \<open>
  The function first reads the rows of the file, if there is one. It returns the
  files after the call and the exception that left it, if any.
\<close>

definition read_rows :: "files \<Rightarrow> string \<Rightarrow> pydict list" where
  "read_rows fs file_path = (case fs file_path of Some t \<Rightarrow> csv_read t | None \<Rightarrow> [])"

definition add_card_data_to_csv ::
  "pylib \<Rightarrow> (string \<Rightarrow> exn + pyval) \<Rightarrow> files \<Rightarrow> string \<Rightarrow> string \<Rightarrow> files \<times> exn option" where
  "add_card_data_to_csv lib net fs file_path top_result_id =
     (let rows = read_rows fs file_path
      in case get_card_details net top_result_id of
           Inl e \<Rightarrow> (fs, Some e)
         | Inr card_data \<Rightarrow>
             (case merge_card lib card_data rows of
                Inl e \<Rightarrow> (fs, Some e)
              | Inr rows' \<Rightarrow>
                  (case writerows lib rows' of
                     (t, e) \<Rightarrow> (fs(file_path \<mapsto> t), e))))"

section \<open>Instances of the parameters for the closed examples\<close>

text \<open>
  The theorems below hold for every interpolation, decoder, model, index and
  library conversion. The closed examples need fixed ones: nearest-neighbour
  sampling; and, for the conversions, plain decimal notation, which is what Python
  reads and prints on the numbers of the examples (\<^verbatim>\<open>float('14.25')\<close>,
  \<^verbatim>\<open>int('1')\<close>, \<^verbatim>\<open>str(28.5)\<close>, \<^verbatim>\<open>float('')\<close> raising).
\<close>

definition nearest :: resampler where
  "nearest img new_w new_h i j =
     img ! (i * img_height img div new_h) ! (j * img_width img div new_w)"

definition digit_val :: "char \<Rightarrow> nat option" where
  "digit_val c =
     (let n = of_char c :: nat in if 48 \<le> n \<and> n \<le> 57 then Some (n - 48) else None)"

fun digits_val :: "nat \<Rightarrow> string \<Rightarrow> nat option" where
  "digits_val acc [] = Some acc"
| "digits_val acc (c # cs) =
     (case digit_val c of None \<Rightarrow> None | Some d \<Rightarrow> digits_val (10 * acc + d) cs)"

definition plain_int :: "string \<Rightarrow> int option" where
  "plain_int s = (if s = [] then None else map_option int (digits_val 0 s))"

definition plain_float :: "string \<Rightarrow> rat option" where
  "plain_float s =
     (let ip = takeWhile (\<lambda>c. c \<noteq> CHR ''.'') s;
          fp = drop (Suc (length ip)) s
      in if ip = [] then None
         else (case (digits_val 0 ip, digits_val 0 fp) of
                 (Some a, Some b) \<Rightarrow> Some (of_nat a + of_nat b / 10 ^ length fp)
               | _ \<Rightarrow> None))"

fun frac_digits :: "nat \<Rightarrow> rat \<Rightarrow> string" where
  "frac_digits 0 f = []"
| "frac_digits (Suc k) f =
     (if f = 0 then []
      else digit_char (nat \<lfloor>f * 10\<rfloor>) # frac_digits k (f * 10 - of_int \<lfloor>f * 10\<rfloor>))"

definition plain_repr :: "pyval \<Rightarrow> string" where
  "plain_repr v =
     (case v of
        PFloat r \<Rightarrow>
          (let f = frac_digits 17 (r - of_int \<lfloor>r\<rfloor>)
           in str_int \<lfloor>r\<rfloor> @ ''.'' @ (if f = [] then ''0'' else f))
      | _ \<Rightarrow> ''[]'')"

definition plain_lib :: pylib where
  "plain_lib = \<lparr>str_to_float = plain_float, str_to_int = plain_int, py_repr = plain_repr\<rparr>"

definition one_match :: "string \<Rightarrow> query_results" where
  "one_match name = \<lparr>matches = [\<lparr>match_id = name, match_score = 1\<rparr>]\<rparr>"


definition test_imread :: "string list \<Rightarrow> string \<Rightarrow> image option" where
  "test_imread unreadable p = (if p \<in> set unreadable then None else Some [[white]])"

definition test_world :: "string list \<Rightarrow> string list \<Rightarrow> (nat \<Rightarrow> exn option) \<Rightarrow> world" where
  "test_world names unreadable outcome =
     \<lparr>listdir = (\<lambda>_. names), imread = test_imread unreadable, interp = nearest,
      predict = (\<lambda>_. Inr [1]), upsert_outcome = outcome\<rparr>"

definition fail_first :: "nat \<Rightarrow> exn option" where
  "fail_first k = (if k = 0 then Some (ExternalError ''unavailable'') else None)"

text \<open>
  A card as the lookup service describes it (the card of the notebook, shortened),
  with the price given; a service that knows this card only; and a ledger file
  with rows as the function writes them.
\<close>

definition shuko_data :: "pyval \<Rightarrow> pydict" where
  "shuko_data usd =
     [(''object'', PStr ''card''),
      (''id'', PStr ''a47456b8''),
      (''name'', PStr ''Shuko''),
      (''mana_cost'', PStr ''{1}''),
      (''cmc'', PFloat 1),
      (''type_line'', PStr (''Artifact '' @ em_dash @ '' Equipment'')),
      (''colors'', PList []),
      (''color_identity'', PList []),
      (''set_name'', PStr ''Betrayers of Kamigawa''),
      (''rarity'', PStr ''uncommon''),
      (''full_art'', PBool False),
      (''prices'', PDict [(''usd'', usd), (''usd_etched'', PNone)])]"

definition scryfall :: "pyval \<Rightarrow> string \<Rightarrow> exn + pyval" where
  "scryfall usd url =
     (if url = ''https://api.scryfall.com/cards/a47456b8'' then Inr (PDict (shuko_data usd))
      else Inr (PDict [(''object'', PStr ''error''), (''code'', PStr ''not_found'')]))"

definition no_files :: files where
  "no_files = (\<lambda>_. None)"

definition shuko_row :: "string \<Rightarrow> string \<Rightarrow> string \<Rightarrow> (string \<times> string) list" where
  "shuko_row price owned tvalue =
     [(''id'', ''a47456b8''), (''name'', ''Shuko''), (''mana_cost'', ''{1}''),
      (''cmc'', ''1.0''), (''type_line'', ''Artifact - Equipment''),
      (''colors'', ''[]''), (''color_identity'', ''[]''),
      (''set_name'', ''Betrayers of Kamigawa''), (''rarity'', ''uncommon''),
      (''full_art'', ''False''), (''price'', price),
      (''number_owned'', owned), (''total_value'', tvalue)]"

definition catalog :: "table \<Rightarrow> files" where
  "catalog t = (\<lambda>p. if p = ''Output/mtg_catalog.csv'' then Some t else None)"

section \<open>Predicates on the state of a run\<close>

text \<open>
  \<open>full_batches b st\<close>: the buffer holds fewer than \<open>b\<close> vectors and every call made
  so far carried \<open>b\<close> of them. \<open>same_index st st'\<close>: two states have the same buffer
  and have made the same calls; they may differ in what was printed.
\<close>

definition full_batches :: "nat \<Rightarrow> run \<Rightarrow> bool" where
  "full_batches b st \<longleftrightarrow> length (batch st) < b \<and> (\<forall>c \<in> set (calls st). length (snd c) = b)"

definition same_index :: "run \<Rightarrow> run \<Rightarrow> bool" where
  "same_index st st' \<longleftrightarrow> batch st = batch st' \<and> calls st = calls st'"


section \<open>Predicates on the rows of the ledger\<close>

text \<open>
  \<open>other_id cid row\<close>: the row has an \<^verbatim>\<open>id\<close> and it is not \<open>cid\<close>, so the loop passes
  over it. \<open>bump n p row\<close>: the row after the two assignments of the loop, for a row
  that held \<open>n\<close> copies and a price read as \<open>p\<close>.
\<close>

definition other_id :: "pyval \<Rightarrow> pydict \<Rightarrow> bool" where
  "other_id cid row \<longleftrightarrow> (\<exists>rid. map_of row ''id'' = Some rid \<and> rid \<noteq> cid)"

definition bump :: "int \<Rightarrow> rat \<Rightarrow> pydict \<Rightarrow> pydict" where
  "bump n p row =
     dict_set ''total_value'' (PFloat (of_int (n + 1) * p))
       (dict_set ''number_owned'' (PInt (n + 1)) row)"

text \<open>
  The invariant of the ledger as the specification states it, read on a row of the
  file: \<^verbatim>\<open>total_value == number_owned * price\<close>, with \<^verbatim>\<open>price\<close> the price cell of
  the row.
\<close>

definition total_value_invariant :: "pylib \<Rightarrow> (string \<times> string) list \<Rightarrow> bool" where
  "total_value_invariant lib row \<longleftrightarrow>
     (case (map_of row ''total_value'', map_of row ''number_owned'', map_of row ''price'') of
        (Some tv, Some owned, Some pr) \<Rightarrow>
          (case (str_to_float lib tv, str_to_int lib owned, str_to_float lib pr) of
             (Some t, Some n, Some p) \<Rightarrow> t = of_int n * p
           | _ \<Rightarrow> False)
      | _ \<Rightarrow> False)"


section \<open>Rounding to a double\<close>

lemma py_trunc_nonneg: "0 \<le> r \<Longrightarrow> py_trunc r = \<lfloor>r\<rfloor>"
  by (simp add: py_trunc_def)

text \<open>Rounding moves a number by at most half a unit in the last place.\<close>

lemma round_even_le: "of_int (round_even x) \<le> x + 1 / 2"
proof -
  define f where "f = \<lfloor>x\<rfloor>"
  have b: "of_int f \<le> x" unfolding f_def by linarith
  have "round_even x = f \<or> round_even x = f + 1 \<and> 1 / 2 \<le> x - of_int f"
    by (auto simp: round_even_def Let_def f_def)
  then show ?thesis
  proof
    assume "round_even x = f"
    then show ?thesis using b by simp
  next
    assume "round_even x = f + 1 \<and> 1 / 2 \<le> x - of_int f"
    then show ?thesis by simp
  qed
qed

lemma round_even_ge: "x - 1 / 2 \<le> of_int (round_even x)"
proof -
  define f where "f = \<lfloor>x\<rfloor>"
  have b: "x < of_int f + 1" unfolding f_def by linarith
  have "round_even x = f + 1 \<or> round_even x = f \<and> x - of_int f \<le> 1 / 2"
    by (auto simp: round_even_def Let_def f_def)
  then show ?thesis
  proof
    assume "round_even x = f + 1"
    then show ?thesis using b by simp
  next
    assume "round_even x = f \<and> x - of_int f \<le> 1 / 2"
    then show ?thesis by simp
  qed
qed

lemma round_even_nonneg: "0 \<le> x \<Longrightarrow> 0 \<le> round_even x"
  by (auto simp: round_even_def Let_def)

lemma binade_le:
  assumes "0 < x"
  shows "2 powi binade x \<le> x"
proof -
  obtain p q where pq: "quotient_of x = (p, q)" by (cases "quotient_of x")
  have q: "0 < q" using pq by (rule quotient_of_denom_pos)
  have x: "x = of_int p / of_int q" using pq by (rule quotient_of_div)
  have p: "0 < p" using assms q x by (simp add: zero_less_divide_iff)
  define d where "d = bitlen p - bitlen q"
  have bp: "1 \<le> bitlen p" and bq: "1 \<le> bitlen q"
    using p q by (simp_all add: bitlen_alt_def)
  have lo: "(2::rat) powi (bitlen p - 1) \<le> of_int p"
  proof -
    have "2 ^ nat (bitlen p - 1) \<le> p" using bitlen_bounds[OF p] by simp
    then have "(of_int (2 ^ nat (bitlen p - 1)) :: rat) \<le> of_int p"
      by (rule of_int_le_iff[THEN iffD2])
    then show ?thesis using bp by (simp add: power_int_def)
  qed
  have hi: "of_int q \<le> (2::rat) powi bitlen q"
  proof -
    have "q < 2 ^ nat (bitlen q)" using bitlen_bounds[OF q] by simp
    then have "(of_int q :: rat) \<le> of_int (2 ^ nat (bitlen q))" by (simp only: of_int_le_iff)
    then show ?thesis using bq by (simp add: power_int_def)
  qed
  have dd: "d - 1 = (bitlen p - 1) - bitlen q" by (simp add: d_def)
  have "(2::rat) powi ((bitlen p - 1) - bitlen q) = 2 powi (bitlen p - 1) / 2 powi bitlen q"
    by (rule power_int_diff) simp
  then have "(2::rat) powi (d - 1) = 2 powi (bitlen p - 1) / 2 powi bitlen q"
    by (simp only: dd)
  also have "\<dots> \<le> of_int p / 2 powi bitlen q"
    by (rule divide_right_mono[OF lo]) simp
  also have "\<dots> \<le> of_int p / of_int q"
    using hi p q by (intro divide_left_mono) simp_all
  finally have "(2::rat) powi (d - 1) \<le> x" by (simp add: x)
  then show ?thesis
    by (simp add: binade_def pq Let_def d_def)
qed

lemma binade_gt:
  assumes "0 < x"
  shows "x < 2 powi (binade x + 1)"
proof -
  obtain p q where pq: "quotient_of x = (p, q)" by (cases "quotient_of x")
  have q: "0 < q" using pq by (rule quotient_of_denom_pos)
  have x: "x = of_int p / of_int q" using pq by (rule quotient_of_div)
  have p: "0 < p" using assms q x by (simp add: zero_less_divide_iff)
  define d where "d = bitlen p - bitlen q"
  have bp: "1 \<le> bitlen p" and bq: "1 \<le> bitlen q"
    using p q by (simp_all add: bitlen_alt_def)
  have hi: "of_int p < (2::rat) powi bitlen p"
  proof -
    have "p < 2 ^ nat (bitlen p)" using bitlen_bounds[OF p] by simp
    then have "(of_int p :: rat) < of_int (2 ^ nat (bitlen p))" by (simp only: of_int_less_iff)
    then show ?thesis using bp by (simp add: power_int_def)
  qed
  have lo: "(2::rat) powi (bitlen q - 1) \<le> of_int q"
  proof -
    have "2 ^ nat (bitlen q - 1) \<le> q" using bitlen_bounds[OF q] by simp
    then have "(of_int (2 ^ nat (bitlen q - 1)) :: rat) \<le> of_int q"
      by (rule of_int_le_iff[THEN iffD2])
    then show ?thesis using bq by (simp add: power_int_def)
  qed
  have dd: "d + 1 = bitlen p - (bitlen q - 1)" by (simp add: d_def)
  have "x = of_int p / of_int q" by (rule x)
  also have "\<dots> < 2 powi bitlen p / of_int q"
    using hi q by (simp add: divide_strict_right_mono)
  also have "\<dots> \<le> 2 powi bitlen p / 2 powi (bitlen q - 1)"
    using lo q by (intro divide_left_mono mult_pos_pos) simp_all
  also have "\<dots> = (2::rat) powi (bitlen p - (bitlen q - 1))"
    by (rule power_int_diff[symmetric]) simp
  finally have up: "x < 2 powi (d + 1)" by (simp only: dd)
  show ?thesis
  proof (cases "(2::rat) powi d \<le> x")
    case True
    then show ?thesis using up by (simp add: binade_def pq Let_def d_def)
  next
    case False
    then show ?thesis by (simp add: binade_def pq Let_def d_def)
  qed
qed

text \<open>The significand has 53 bits.\<close>

lemma significand_range:
  assumes "0 < x"
  shows "2 ^ 52 \<le> x / 2 powi (binade x - 52)" and "x / 2 powi (binade x - 52) < 2 ^ 53"
proof -
  have e: "(2::rat) powi (binade x - 52) = 2 powi binade x / 2 ^ 52"
    by (simp add: power_int_diff)
  have a: "1 \<le> x / 2 powi binade x"
    using binade_le[OF assms] by simp
  have "(2::rat) powi (binade x + 1) = 2 powi binade x * 2"
    by (simp add: power_int_add)
  then have b: "x / 2 powi binade x < 2"
    using binade_gt[OF assms] by (simp add: field_simps)
  have eq: "x / 2 powi (binade x - 52) = (x / 2 powi binade x) * 2 ^ 52"
    by (simp add: e)
  have "(2::rat) ^ 52 = 1 * 2 ^ 52" by simp
  also have "\<dots> \<le> (x / 2 powi binade x) * 2 ^ 52"
    by (rule mult_right_mono[OF a]) simp
  finally show "2 ^ 52 \<le> x / 2 powi (binade x - 52)"
    unfolding eq .
  have "(x / 2 powi binade x) * 2 ^ 52 < 2 * 2 ^ 52"
    by (rule mult_strict_right_mono[OF b]) simp
  also have "\<dots> = (2::rat) ^ 53" by simp
  finally show "x / 2 powi (binade x - 52) < 2 ^ 53"
    unfolding eq .
qed

lemma float64_nonneg: "0 \<le> x \<Longrightarrow> 0 \<le> float64 x"
  by (simp add: float64_def Let_def round_even_nonneg sgn_if)

lemma float64_le:
  assumes "0 \<le> x"
  shows "float64 x \<le> x * (1 + 1 / 2 ^ 53)"
proof (cases "x = 0")
  case True
  then show ?thesis by (simp add: float64_def)
next
  case False
  then have pos: "0 < x" using assms by simp
  define e where "e = binade x - 52"
  have e: "(2::rat) powi e = 2 powi binade x / 2 ^ 52"
    by (simp add: e_def power_int_diff)
  have b: "(2::rat) powi e \<le> x / 2 ^ 52"
    unfolding e using binade_le[OF pos] by (simp add: divide_right_mono)
  have p2: "0 < (2::rat) powi e" by simp
  have "float64 x = of_int (round_even (x / 2 powi e)) * 2 powi e"
    using pos by (simp add: float64_def Let_def e_def)
  also have "\<dots> \<le> (x / 2 powi e + 1 / 2) * 2 powi e"
    by (rule mult_right_mono[OF round_even_le]) simp
  also have "\<dots> = x + 2 powi e / 2"
    using p2 by (simp add: field_simps)
  also have "\<dots> \<le> x + (x / 2 ^ 52) / 2"
    using b by simp
  also have "\<dots> = x * (1 + 1 / 2 ^ 53)"
    by (simp add: field_simps)
  finally show ?thesis .
qed

lemma float64_ge:
  assumes "0 \<le> x"
  shows "x * (1 - 1 / 2 ^ 53) \<le> float64 x"
proof (cases "x = 0")
  case True
  then show ?thesis by (simp add: float64_def)
next
  case False
  then have pos: "0 < x" using assms by simp
  define e where "e = binade x - 52"
  have e: "(2::rat) powi e = 2 powi binade x / 2 ^ 52"
    by (simp add: e_def power_int_diff)
  have b: "(2::rat) powi e \<le> x / 2 ^ 52"
    unfolding e using binade_le[OF pos] by (simp add: divide_right_mono)
  have p2: "0 < (2::rat) powi e" by simp
  have "x * (1 - 1 / 2 ^ 53) = x - (x / 2 ^ 52) / 2"
    by (simp add: field_simps)
  also have "\<dots> \<le> x - 2 powi e / 2"
    using b by simp
  also have "\<dots> = (x / 2 powi e - 1 / 2) * 2 powi e"
    using p2 by (simp add: field_simps)
  also have "\<dots> \<le> of_int (round_even (x / 2 powi e)) * 2 powi e"
    by (rule mult_right_mono[OF round_even_ge]) simp
  also have "\<dots> = float64 x"
    using pos by (simp add: float64_def Let_def e_def)
  finally show ?thesis .
qed

lemma three_roundings:
  "(1 + 1 / 2 ^ 53 :: rat) ^ 3 \<le> 1 + 4 / 2 ^ 53"
  "(1 - 4 / 2 ^ 53 :: rat) \<le> (1 - 1 / 2 ^ 53) ^ 3"
  by code_simp+

text \<open>The product as the code computes it, against the exact product \<open>n * s\<close>.\<close>

lemma product_bounds:
  fixes S :: int and n :: nat and s sf :: rat
  assumes S: "S \<le> 2 ^ 50"
    and s: "0 \<le> s" "of_nat n * s \<le> of_int S"
    and sf: "s * (1 - 1 / 2 ^ 53) \<le> sf" "sf \<le> s * (1 + 1 / 2 ^ 53)"
  shows "of_nat n * s - 1 < float64 (float64 (of_nat n) * sf)"
    and "float64 (float64 (of_nat n) * sf) < of_nat n * s + 1"
    and "0 \<le> float64 (float64 (of_nat n) * sf)"
proof -
  let ?u = "1 + 1 / 2 ^ 53 :: rat"
  let ?l = "1 - 1 / 2 ^ 53 :: rat"
  let ?fn = "float64 (of_nat n)"
  let ?X = "of_nat n * s :: rat"
  have l0: "0 \<le> ?l" by simp
  have X0: "0 \<le> ?X" using s(1) by simp
  have XS: "?X * 4 / 2 ^ 53 < 1"
  proof -
    have "(of_int S :: rat) \<le> of_int (2 ^ 50)" using S by (simp only: of_int_le_iff)
    then have "(of_int S :: rat) \<le> 2 ^ 50" by simp
    with s(2) have "?X \<le> 2 ^ 50" by (rule order_trans)
    then have "?X * 4 / 2 ^ 53 \<le> 2 ^ 50 * 4 / 2 ^ 53"
      by (intro divide_right_mono mult_right_mono) simp_all
    also have "\<dots> < (1::rat)" by simp
    finally show ?thesis .
  qed
  have sf0: "0 \<le> sf"
  proof -
    have "0 \<le> s * ?l" using s(1) l0 by (rule mult_nonneg_nonneg)
    then show ?thesis using sf(1) by linarith
  qed
  have fn0: "0 \<le> ?fn" by (rule float64_nonneg) simp
  have fnu: "?fn \<le> of_nat n * ?u" by (rule float64_le) simp
  have fnl: "of_nat n * ?l \<le> ?fn" by (rule float64_ge) simp
  have p0: "0 \<le> ?fn * sf" using fn0 sf0 by simp
  show "0 \<le> float64 (?fn * sf)" by (rule float64_nonneg[OF p0])
  \<comment> \<open>from above\<close>
  have "?fn * sf \<le> (of_nat n * ?u) * (s * ?u)"
    using fnu sf(2) fn0 sf0 s(1) by (intro mult_mono) simp_all
  also have "\<dots> = ?X * ?u ^ 2" by (simp add: power2_eq_square)
  finally have up1: "?fn * sf \<le> ?X * ?u ^ 2" .
  have "float64 (?fn * sf) \<le> (?fn * sf) * ?u" by (rule float64_le[OF p0])
  also have "\<dots> \<le> (?X * ?u ^ 2) * ?u" by (rule mult_right_mono[OF up1]) simp
  also have "\<dots> = ?X * ?u ^ 3" by (simp add: power2_eq_square power3_eq_cube)
  also have "\<dots> \<le> ?X * (1 + 4 / 2 ^ 53)"
    using X0 by (intro mult_left_mono three_roundings)
  also have "\<dots> = ?X + ?X * 4 / 2 ^ 53" by (simp add: algebra_simps)
  also have "\<dots> < ?X + 1" using XS by simp
  finally show "float64 (?fn * sf) < ?X + 1" .
  \<comment> \<open>from below\<close>
  have "(of_nat n * ?l) * (s * ?l) \<le> ?fn * sf"
    using fnl sf(1) s(1) l0 by (intro mult_mono) simp_all
  then have lo1: "?X * ?l ^ 2 \<le> ?fn * sf" by (simp add: power2_eq_square mult_ac)
  have "?X - 1 < ?X - ?X * 4 / 2 ^ 53" using XS by simp
  also have "\<dots> = ?X * (1 - 4 / 2 ^ 53)" by (simp add: algebra_simps)
  also have "\<dots> \<le> ?X * ?l ^ 3"
    using X0 by (intro mult_left_mono three_roundings)
  also have "\<dots> = (?X * ?l ^ 2) * ?l" by (simp add: power2_eq_square power3_eq_cube)
  also have "\<dots> \<le> (?fn * sf) * ?l" by (rule mult_right_mono[OF lo1 l0])
  also have "\<dots> \<le> float64 (?fn * sf)" by (rule float64_ge[OF p0])
  finally show "?X - 1 < float64 (?fn * sf)" .
qed

lemma scale_bounds:
  fixes S :: int and h w :: nat
  assumes "1 \<le> S"
  shows "min (of_int S / of_nat h) (of_int S / of_nat w) * (1 - 1 / 2 ^ 53)
           \<le> min (float64 (of_int S / of_nat h)) (float64 (of_int S / of_nat w))"
    and "min (float64 (of_int S / of_nat h)) (float64 (of_int S / of_nat w))
           \<le> min (of_int S / of_nat h) (of_int S / of_nat w) * (1 + 1 / 2 ^ 53)"
proof -
  let ?a = "of_int S / of_nat h :: rat" and ?b = "of_int S / of_nat w :: rat"
  have a: "0 \<le> ?a" and b: "0 \<le> ?b" using assms by simp_all
  note la = float64_ge[OF a] and lb = float64_ge[OF b]
    and ua = float64_le[OF a] and ub = float64_le[OF b]
  have l0: "0 \<le> (1 - 1 / 2 ^ 53 :: rat)" by simp
  have "min ?a ?b * (1 - 1 / 2 ^ 53) \<le> ?a * (1 - 1 / 2 ^ 53)"
    by (rule mult_right_mono[OF _ l0]) simp
  then have A: "min ?a ?b * (1 - 1 / 2 ^ 53) \<le> float64 ?a"
    using la by (rule order_trans)
  have "min ?a ?b * (1 - 1 / 2 ^ 53) \<le> ?b * (1 - 1 / 2 ^ 53)"
    by (rule mult_right_mono[OF _ l0]) simp
  then have B: "min ?a ?b * (1 - 1 / 2 ^ 53) \<le> float64 ?b"
    using lb by (rule order_trans)
  show "min ?a ?b * (1 - 1 / 2 ^ 53) \<le> min (float64 ?a) (float64 ?b)"
    by (rule min.boundedI[OF A B])
  show "min (float64 ?a) (float64 ?b) \<le> min ?a ?b * (1 + 1 / 2 ^ 53)"
  proof (cases "?a \<le> ?b")
    case True
    then have m: "min ?a ?b = ?a" by simp
    have "min (float64 ?a) (float64 ?b) \<le> float64 ?a" by simp
    also note ua
    finally show ?thesis unfolding m .
  next
    case False
    then have m: "min ?a ?b = ?b" by simp
    have "min (float64 ?a) (float64 ?b) \<le> float64 ?b" by simp
    also note ub
    finally show ?thesis unfolding m .
  qed
qed



section \<open>The normalized canvas\<close>

lemma exact_product_le:
  fixes S :: int and h w :: nat
  assumes "1 \<le> h" "1 \<le> w" "1 \<le> S"
  shows "of_nat w * min (of_int S / of_nat h) (of_int S / of_nat w :: rat) \<le> of_int S"
    and "of_nat h * min (of_int S / of_nat h) (of_int S / of_nat w :: rat) \<le> of_int S"
proof -
  have "of_nat w * min (of_int S / of_nat h) (of_int S / of_nat w :: rat)
      \<le> of_nat w * (of_int S / of_nat w)"
    by (rule mult_left_mono) simp_all
  also have "\<dots> = of_int S" using assms by simp
  finally show "of_nat w * min (of_int S / of_nat h) (of_int S / of_nat w :: rat) \<le> of_int S" .
  have "of_nat h * min (of_int S / of_nat h) (of_int S / of_nat w :: rat)
      \<le> of_nat h * (of_int S / of_nat h)"
    by (rule mult_left_mono) simp_all
  also have "\<dots> = of_int S" using assms by simp
  finally show "of_nat h * min (of_int S / of_nat h) (of_int S / of_nat w :: rat) \<le> of_int S" .
qed

text \<open>
  The size that the code computes for one axis (\<open>n\<close> is the width or the height),
  against the floor of the exact product.
\<close>

lemma computed_size:
  fixes S :: int and h w n :: nat
  assumes S: "1 \<le> S" "S \<le> 2 ^ 50"
    and X: "of_nat n * min (of_int S / of_nat h) (of_int S / of_nat w :: rat) \<le> of_int S"
    and k: "k = py_trunc (int_mul_float (int n)
                  (min (int_truediv S (int h)) (int_truediv S (int w))))"
  shows "0 \<le> k" and "k \<le> S"
    and "\<bar>k - \<lfloor>of_nat n * min (of_int S / of_nat h) (of_int S / of_nat w :: rat)\<rfloor>\<bar> \<le> 1"
proof -
  let ?s = "min (of_int S / of_nat h) (of_int S / of_nat w :: rat)"
  let ?sf = "min (float64 (of_int S / of_nat h)) (float64 (of_int S / of_nat w))"
  let ?P = "float64 (float64 (of_nat n) * ?sf)"
  let ?X = "of_nat n * ?s"
  have s0: "0 \<le> ?s" using S(1) by simp
  note b = product_bounds[OF S(2) s0 X scale_bounds[OF S(1)]]
  have k': "k = \<lfloor>?P\<rfloor>"
    using b(3) by (simp add: k int_mul_float_def int_truediv_def py_trunc_nonneg)
  show "0 \<le> k" using b(3) by (simp add: k')
  have "?P < of_int S + 1" using b(2) X by linarith
  then have "?P < of_int (S + 1)" by simp
  then have "\<lfloor>?P\<rfloor> < S + 1" by (simp only: floor_less_iff)
  then show "k \<le> S" by (simp add: k')
  have "\<lfloor>?X - 1\<rfloor> \<le> \<lfloor>?P\<rfloor>" using b(1) by (intro floor_mono) simp
  moreover have "\<lfloor>?P\<rfloor> \<le> \<lfloor>?X + 1\<rfloor>" using b(2) by (intro floor_mono) simp
  moreover have "\<lfloor>?X - 1\<rfloor> = \<lfloor>?X\<rfloor> - 1" "\<lfloor>?X + 1\<rfloor> = \<lfloor>?X\<rfloor> + 1" by simp_all
  ultimately show "\<bar>k - \<lfloor>?X\<rfloor>\<bar> \<le> 1" by (simp add: k')
qed

lemma new_size_eq:
  "new_size h w S =
     (py_trunc (int_mul_float (int w) (min (int_truediv S (int h)) (int_truediv S (int w)))),
      py_trunc (int_mul_float (int h) (min (int_truediv S (int h)) (int_truediv S (int w)))))"
  by (simp add: new_size_def Let_def)

lemma new_size_le:
  assumes "1 \<le> h" "1 \<le> w" "1 \<le> S" "S \<le> 2 ^ 50"
  shows "fst (new_size h w S) \<le> S" "snd (new_size h w S) \<le> S"
  using computed_size(2)[OF assms(3,4) exact_product_le(1)[OF assms(1-3)] refl]
    computed_size(2)[OF assms(3,4) exact_product_le(2)[OF assms(1-3)] refl]
  by (simp_all add: new_size_eq)





text \<open>Sizes as the code computes them, at the target size of the notebook and at 1.\<close>

lemma new_size_examples:
  "new_size 100 107 224 = (223, 209)"
  "\<lfloor>of_nat 107 * min (of_int 224 / of_nat 100) (of_int 224 / of_nat 107 :: rat)\<rfloor> = 224"
  "new_size 49 49 1 = (0, 0)"
  "new_size 2 1 1 = (0, 1)"
  "new_size 1 2 4 = (4, 2)"
  "new_size 1 1 224 = (224, 224)"
  by code_simp+




text \<open>The canvas of that image, computed.\<close>

lemma resize_with_padding_example:
  "resize_with_padding nearest [[(1, 2, 3), (4, 5, 6)]] 4 =
     Inr [[white, white, white, white],
          [(1, 2, 3), (1, 2, 3), (4, 5, 6), (4, 5, 6)],
          [(1, 2, 3), (1, 2, 3), (4, 5, 6), (4, 5, 6)],
          [white, white, white, white]]"
  by code_simp


section \<open>Batch ingestion\<close>

lemma img_width_replicate: "0 < n \<Longrightarrow> img_width (replicate n r) = length r"
  by (cases n) (simp_all add: img_width_def)

lemma resize_single_pixel:
  "\<exists>canvas. resize_with_padding smp [[px]] 224 = Inr canvas"
proof -
  have n: "new_size (Suc 0) (Suc 0) 224 = (224, 224)"
    using new_size_examples(6) by simp
  show ?thesis
    by (simp add: resize_with_padding_def img_height_def n
        cv2_resize_def np_full_def assign_block_def has_shape_def Let_def img_width_replicate)
      (simp add: img_width_def n)
qed

lemma embed_single_pixel:
  assumes "imread wd p = Some [[px]]" "\<And>img. predict wd img = Inr v"
  shows "embed_image wd p = Inr v"
proof -
  obtain canvas where "resize_with_padding (interp wd) [[px]] 224 = Inr canvas"
    using resize_single_pixel by blast
  then show ?thesis
    using assms by (simp add: embed_image_def preprocess_image_with_padding_def)
qed

lemma test_embed_ok:
  "p \<notin> set bad \<Longrightarrow> embed_image (test_world names bad oc) p = Inr [1]"
  by (rule embed_single_pixel) (simp_all add: test_world_def test_imread_def)

lemma test_embed_bad:
  "p \<in> set bad \<Longrightarrow> embed_image (test_world names bad oc) p = Inl AttributeError"
  by (simp add: embed_image_def preprocess_image_with_padding_def test_world_def test_imread_def)

text \<open>One iteration on an entry that embeds, when the index accepts the call.\<close>

lemma loop_body_good:
  assumes "embed_image wd (path_join dir n) = Inr v"
    and "upsert_outcome wd (length (calls st)) = None"
  shows "loop_body wd dir B ns st n =
     (if B \<le> int (length (batch st)) + 1
      then st\<lparr>calls := calls st @ [(ns, batch st @ [\<lparr>vec_id = n, vec_values = v\<rparr>])],
              printed := printed st @ [UpsertedBatch B], batch := []\<rparr>
      else st\<lparr>batch := batch st @ [\<lparr>vec_id = n, vec_values = v\<rparr>]\<rparr>)"
  using assms by (simp add: loop_body_def index_upsert_def Let_def)

lemma loop_body_bad:
  assumes "embed_image wd (path_join dir n) = Inl e"
  shows "loop_body wd dir B ns st n = st\<lparr>printed := printed st @ [ErrorProcessing n e]\<rparr>"
  using assms by (simp add: loop_body_def)

lemma loop_good_invariant:
  assumes "1 \<le> B" "\<forall>k. upsert_outcome wd k = None"
    and "\<forall>n \<in> set xs. \<exists>v. embed_image wd (path_join dir n) = Inr v"
    and "full_batches (nat B) st"
  shows "full_batches (nat B) (foldl (loop_body wd dir B ns) st xs)
       \<and> length (calls (foldl (loop_body wd dir B ns) st xs)) * nat B
           + length (batch (foldl (loop_body wd dir B ns) st xs))
         = length (calls st) * nat B + length (batch st) + length xs"
  using assms(3,4)
proof (induction xs arbitrary: st)
  case Nil
  then show ?case by simp
next
  case (Cons n xs)
  obtain v where v: "embed_image wd (path_join dir n) = Inr v"
    using Cons.prems(1) by auto
  let ?st1 = "loop_body wd dir B ns st n"
  have eq: "?st1 =
     (if B \<le> int (length (batch st)) + 1
      then st\<lparr>calls := calls st @ [(ns, batch st @ [\<lparr>vec_id = n, vec_values = v\<rparr>])],
              printed := printed st @ [UpsertedBatch B], batch := []\<rparr>
      else st\<lparr>batch := batch st @ [\<lparr>vec_id = n, vec_values = v\<rparr>]\<rparr>)"
    by (rule loop_body_good[OF v]) (simp add: assms(2))
  have lt: "length (batch st) < nat B" and al: "\<forall>c \<in> set (calls st). length (snd c) = nat B"
    using Cons.prems(2) by (simp_all add: full_batches_def)
  have inv1: "full_batches (nat B) ?st1"
    using lt al assms(1) by (auto simp: eq full_batches_def)
  have cnt1: "length (calls ?st1) * nat B + length (batch ?st1)
      = length (calls st) * nat B + length (batch st) + 1"
  proof (cases "B \<le> int (length (batch st)) + 1")
    case True
    then have "nat B = length (batch st) + 1" using lt by linarith
    then show ?thesis using True by (simp add: eq)
  next
    case False
    then show ?thesis by (simp add: eq)
  qed
  have "full_batches (nat B) (foldl (loop_body wd dir B ns) ?st1 xs)
       \<and> length (calls (foldl (loop_body wd dir B ns) ?st1 xs)) * nat B
           + length (batch (foldl (loop_body wd dir B ns) ?st1 xs))
         = length (calls ?st1) * nat B + length (batch ?st1) + length xs"
    using Cons.IH[OF _ inv1] Cons.prems(1) by simp
  then show ?case using cnt1 by simp
qed

lemma div_mod_unique:
  fixes c r b N :: nat
  assumes "c * b + r = N" "r < b"
  shows "c = N div b" "r = N mod b"
proof -
  have "N div b = c" using assms by (metis div_mult_self3 div_less add.commute add_0 less_nat_zero_code mult.commute neq0_conv)
  then show "c = N div b" by simp
  show "r = N mod b" using assms by (metis mod_mult_self3 mod_less add.commute mult.commute)
qed

lemma ceiling_div_nat:
  fixes N b :: nat
  assumes "0 < b"
  shows "\<lceil>of_nat N / of_nat b :: rat\<rceil> = int (N div b + (if N mod b = 0 then 0 else 1))"
proof -
  have "\<lceil>of_int (int N) / of_int (int b) :: rat\<rceil> = - ((- int N) div int b)"
    by (rule ceiling_divide_eq_div)
  moreover have "- ((- int N) div int b) = int (N div b + (if N mod b = 0 then 0 else 1))"
  proof -
    have m: "int N mod int b = int (N mod b)" and d: "int N div int b = int (N div b)"
      by (simp_all add: zmod_int zdiv_int)
    show ?thesis
      using assms by (simp add: zdiv_zminus1_eq_if m d)
  qed
  ultimately show ?thesis by simp
qed

text \<open>
  The batches of a run in which the index accepts every upsert call: over \<open>N\<close>
  entries that all embed, with a batch size \<open>B \<ge> 1\<close>, the function returns normally
  after exactly \<open>\<lceil>N / B\<rceil>\<close> calls; every call but the last carries \<open>B\<close> vectors, and
  the last carries \<open>N mod B\<close> of them when \<open>B\<close> does not divide \<open>N\<close> and \<open>B\<close> when it
  does.
\<close>

lemma batch_upsert_call_sizes:
  assumes B: "1 \<le> B"
    and ok: "\<forall>n \<in> set (listdir wd dir). \<exists>v. embed_image wd (path_join dir n) = Inr v"
    and up: "\<forall>k. upsert_outcome wd k = None"
    and N: "N = length (listdir wd dir)"
    and cs: "cs = map snd (calls (fst (batch_upsert_embeddings wd dir B ns)))"
  shows "snd (batch_upsert_embeddings wd dir B ns) = None
       \<and> int (length cs) = \<lceil>of_nat N / of_int B :: rat\<rceil>
       \<and> (\<forall>i. Suc i < length cs \<longrightarrow> length (cs ! i) = nat B)
       \<and> (cs \<noteq> [] \<longrightarrow> length (last cs) = (if N mod nat B = 0 then nat B else N mod nat B))"
proof -
  define st where "st = foldl (loop_body wd dir B ns) run0 (listdir wd dir)"
  have f0: "full_batches (nat B) run0"
    using B by (simp add: full_batches_def run0_def)
  have inv: "full_batches (nat B) st"
    and cnt: "length (calls st) * nat B + length (batch st) = N"
    using loop_good_invariant[OF B up ok f0, of ns] by (simp_all add: st_def N run0_def)
  have lt: "length (batch st) < nat B" and al: "\<forall>c \<in> set (calls st). length (snd c) = nat B"
    using inv by (simp_all add: full_batches_def)
  have dm: "length (calls st) = N div nat B" "length (batch st) = N mod nat B"
    using div_mod_unique[OF cnt lt] by simp_all
  have res: "batch_upsert_embeddings wd dir B ns =
      (if batch st \<noteq> []
       then (st\<lparr>calls := calls st @ [(ns, batch st)],
                 printed := printed st @ [UpsertedFinal (length (batch st))]\<rparr>, None)
       else (st, None))"
    using up by (simp add: batch_upsert_embeddings_def st_def[symmetric] index_upsert_def Let_def)
  have cs': "cs = map snd (calls st) @ (if batch st \<noteq> [] then [batch st] else [])"
    by (simp add: cs res)
  have ret: "snd (batch_upsert_embeddings wd dir B ns) = None"
    by (simp add: res)
  have emp: "batch st = [] \<longleftrightarrow> N mod nat B = 0"
    using dm(2) by (metis length_0_conv)
  have len: "length cs = N div nat B + (if N mod nat B = 0 then 0 else 1)"
    using dm(1) emp by (simp add: cs')
  have b: "of_int B = (of_nat (nat B) :: rat)" using B by simp
  have cl: "int (length cs) = \<lceil>of_nat N / of_int B :: rat\<rceil>"
    unfolding b using ceiling_div_nat[of "nat B" N] B len by simp
  have inner: "length (cs ! i) = nat B" if "Suc i < length cs" for i
  proof -
    have "i < length (calls st)" using that by (simp add: cs' split: if_splits)
    then show ?thesis using al by (simp add: cs' nth_append)
  qed
  have lst: "length (last cs) = (if N mod nat B = 0 then nat B else N mod nat B)" if "cs \<noteq> []"
  proof (cases "batch st = []")
    case True
    then have "cs = map snd (calls st)" "calls st \<noteq> []" using that by (simp_all add: cs')
    then have "length (last cs) = nat B" using al by (simp add: last_map)
    then show ?thesis using True emp by simp
  next
    case False
    then show ?thesis using dm(2) emp by (simp add: cs')
  qed
  show ?thesis using ret cl inner lst by blast
qed

lemma test_world_sel [simp]:
  "listdir (test_world names bad oc) d = names"
  "upsert_outcome (test_world names bad oc) = oc"
  by (simp_all add: test_world_def)

lemma test_embed_names:
  "\<forall>n \<in> set names. \<exists>v. embed_image (test_world names [] oc) (path_join d n) = Inr v"
  by (simp add: test_embed_ok)

text \<open>Three images in batches of two: the example of the specification.\<close>

lemma batch_upsert_call_sizes_example:
  "(1::int) \<le> 2
   \<and> list_all (\<lambda>n. embed_image (test_world [''a.jpg'', ''b.jpg'', ''c.jpg''] [] (\<lambda>k. None))
                (path_join ''imgs'' n) = Inr [1])
        (listdir (test_world [''a.jpg'', ''b.jpg'', ''c.jpg''] [] (\<lambda>k. None)) ''imgs'')
   \<and> (\<forall>k. upsert_outcome (test_world [''a.jpg'', ''b.jpg'', ''c.jpg''] [] (\<lambda>k. None)) k = None)
   \<and> (\<exists>cs. cs = map snd (calls (fst (batch_upsert_embeddings
                  (test_world [''a.jpg'', ''b.jpg'', ''c.jpg''] [] (\<lambda>k. None)) ''imgs'' 2 ''cards'')))
        \<and> snd (batch_upsert_embeddings
                 (test_world [''a.jpg'', ''b.jpg'', ''c.jpg''] [] (\<lambda>k. None)) ''imgs'' 2 ''cards'') = None
        \<and> int (length cs) = \<lceil>of_nat 3 / of_int 2 :: rat\<rceil>
        \<and> (\<forall>i. Suc i < length cs \<longrightarrow> length (cs ! i) = nat 2)
        \<and> (cs \<noteq> [] \<longrightarrow> length (last cs) = (if 3 mod nat 2 = 0 then nat 2 else 3 mod nat 2)))"
proof -
  let ?w = "test_world [''a.jpg'', ''b.jpg'', ''c.jpg''] [] (\<lambda>k. None)"
  have a: "(1::int) \<le> 2" by simp
  have b: "\<forall>n \<in> set (listdir ?w ''imgs''). \<exists>v. embed_image ?w (path_join ''imgs'' n) = Inr v"
    using test_embed_names[of "[''a.jpg'', ''b.jpg'', ''c.jpg'']"] by simp
  have c: "\<forall>k. upsert_outcome ?w k = None" by simp
  have d: "3 = length (listdir ?w ''imgs'')" by simp
  have b': "list_all (\<lambda>n. embed_image ?w (path_join ''imgs'' n) = Inr [1]) (listdir ?w ''imgs'')"
    by (simp add: test_embed_ok)
  note t = batch_upsert_call_sizes [OF a b c d refl, of "''cards''"]
  show ?thesis
    using a b' c t by blast
qed

lemma ingest_three_by_two:
  "map (map vec_id \<circ> snd) (calls (fst (batch_upsert_embeddings
      (test_world [''a.jpg'', ''b.jpg'', ''c.jpg''] [] (\<lambda>k. None)) ''imgs'' 2 ''cards'')))
   = [[''a.jpg'', ''b.jpg''], [''c.jpg'']]"
  by (simp add: batch_upsert_embeddings_def loop_body_def test_embed_ok index_upsert_def run0_def Let_def)

text \<open>The directory listing is read once, by \<open>batch_upsert_embeddings\<close> itself.\<close>

lemma embed_image_listdir:
  "embed_image (wd\<lparr>listdir := l\<rparr>) p = embed_image wd p"
  by (simp add: embed_image_def preprocess_image_with_padding_def
      split: option.splits sum.splits)

lemma index_upsert_listdir:
  "index_upsert (wd\<lparr>listdir := l\<rparr>) vs ns st = index_upsert wd vs ns st"
  by (simp add: index_upsert_def)

lemma loop_body_listdir:
  "loop_body (wd\<lparr>listdir := l\<rparr>) dir B ns = loop_body wd dir B ns"
  by (intro ext)
    (simp add: loop_body_def embed_image_listdir index_upsert_listdir Let_def
      cong: sum.case_cong if_cong)

lemma loop_body_same_index:
  assumes "same_index st st'"
  shows "same_index (loop_body wd dir B ns st n) (loop_body wd dir B ns st' n)"
  using assms
  by (auto simp: same_index_def loop_body_def index_upsert_def Let_def
      split: sum.splits option.splits)

lemma foldl_same_index:
  assumes "same_index st st'"
  shows "same_index (foldl (loop_body wd dir B ns) st xs) (foldl (loop_body wd dir B ns) st' xs)"
  using assms
  by (induction xs arbitrary: st st') (simp_all add: loop_body_same_index)

lemma loop_body_printed:
  "set (printed st) \<subseteq> set (printed (loop_body wd dir B ns st n))"
  by (auto simp: loop_body_def index_upsert_def Let_def split: sum.splits option.splits)

lemma foldl_printed:
  "set (printed st) \<subseteq> set (printed (foldl (loop_body wd dir B ns) st xs))"
proof (induction xs arbitrary: st)
  case Nil
  show ?case by simp
next
  case (Cons n xs)
  have "set (printed st) \<subseteq> set (printed (loop_body wd dir B ns st n))"
    by (rule loop_body_printed)
  also have "\<dots> \<subseteq> set (printed (foldl (loop_body wd dir B ns) (loop_body wd dir B ns st n) xs))"
    by (rule Cons.IH)
  finally show ?case by simp
qed

text \<open>
  C6: when the embedding of one entry \<open>bad\<close> of the listing raises (the image cannot
  be decoded or is degenerate, or the model fails), the failure is printed with the
  name of the entry and the run goes on. It makes the same upsert calls, with the
  same vectors, and ends the same way (normally, or with the exception of the last
  upsert) as the run over the listing without \<open>bad\<close>. This holds for every batch
  size and whatever the index answers.
\<close>

theorem failed_entry_is_skipped:
  assumes names: "listdir wd dir = xs @ [bad] @ ys"
    and fails: "embed_image wd (path_join dir bad) = Inl err"
    and r: "r = batch_upsert_embeddings wd dir B ns"
    and r': "r' = batch_upsert_embeddings (wd\<lparr>listdir := \<lambda>_. xs @ ys\<rparr>) dir B ns"
  shows "calls (fst r) = calls (fst r') \<and> snd r = snd r'
       \<and> ErrorProcessing bad err \<in> set (printed (fst r))"
proof -
  let ?f = "loop_body wd dir B ns"
  define st0 where "st0 = foldl ?f run0 xs"
  define st1 where "st1 = st0\<lparr>printed := printed st0 @ [ErrorProcessing bad err]\<rparr>"
  define st where "st = foldl ?f st1 ys"
  define st' where "st' = foldl ?f st0 ys"
  have step: "?f st0 bad = st1"
    by (simp add: loop_body_bad[OF fails] st1_def)
  have "foldl ?f run0 (listdir wd dir) = foldl ?f (?f st0 bad) ys"
    by (simp add: names st0_def)
  then have run: "foldl ?f run0 (listdir wd dir) = st"
    by (simp add: step st_def)
  have run': "foldl (loop_body (wd\<lparr>listdir := \<lambda>_. xs @ ys\<rparr>) dir B ns) run0
      (listdir (wd\<lparr>listdir := \<lambda>_. xs @ ys\<rparr>) dir) = st'"
    by (simp add: loop_body_listdir st'_def st0_def)
  have "same_index st1 st0"
    by (simp add: same_index_def st1_def)
  then have sim: "same_index st st'"
    unfolding st_def st'_def by (rule foldl_same_index)
  then have bc: "batch st = batch st'" "calls st = calls st'"
    by (simp_all add: same_index_def)
  have res: "r = (if batch st \<noteq> []
         then (case index_upsert wd (batch st) ns st of
                 (st2, Some e) \<Rightarrow> (st2, Some e)
               | (st2, None) \<Rightarrow>
                   (st2\<lparr>printed := printed st2 @ [UpsertedFinal (length (batch st2))]\<rparr>, None))
         else (st, None))"
    by (simp only: r batch_upsert_embeddings_def run Let_def)
  have res': "r' = (if batch st' \<noteq> []
         then (case index_upsert wd (batch st') ns st' of
                 (st2, Some e) \<Rightarrow> (st2, Some e)
               | (st2, None) \<Rightarrow>
                   (st2\<lparr>printed := printed st2 @ [UpsertedFinal (length (batch st2))]\<rparr>, None))
         else (st', None))"
    by (simp only: r' batch_upsert_embeddings_def run' Let_def index_upsert_listdir)
  have c: "calls (fst r) = calls (fst r')"
    using bc by (simp add: res res' index_upsert_def split: option.splits)
  have e: "snd r = snd r'"
    using bc by (simp add: res res' index_upsert_def split: option.splits)
  have "ErrorProcessing bad err \<in> set (printed st1)"
    by (simp add: st1_def)
  then have "ErrorProcessing bad err \<in> set (printed st)"
    using foldl_printed[of st1 wd dir B ns ys] by (auto simp: st_def)
  then have p: "ErrorProcessing bad err \<in> set (printed (fst r))"
    by (simp add: res index_upsert_def split: option.splits)
  show ?thesis using c e p by simp
qed

text \<open>An unreadable file between two images.\<close>

theorem failed_entry_is_skipped_witness:
  "listdir (test_world [''a.jpg'', ''x.txt'', ''b.jpg''] [''imgs/x.txt''] (\<lambda>k. None)) ''imgs''
     = [''a.jpg''] @ [''x.txt''] @ [''b.jpg'']
   \<and> embed_image (test_world [''a.jpg'', ''x.txt'', ''b.jpg''] [''imgs/x.txt''] (\<lambda>k. None))
        (path_join ''imgs'' ''x.txt'') = Inl AttributeError
   \<and> calls (fst (batch_upsert_embeddings
        (test_world [''a.jpg'', ''x.txt'', ''b.jpg''] [''imgs/x.txt''] (\<lambda>k. None)) ''imgs'' 2 ''cards''))
     = calls (fst (batch_upsert_embeddings
        ((test_world [''a.jpg'', ''x.txt'', ''b.jpg''] [''imgs/x.txt''] (\<lambda>k. None))
           \<lparr>listdir := \<lambda>_. [''a.jpg''] @ [''b.jpg'']\<rparr>) ''imgs'' 2 ''cards''))
   \<and> snd (batch_upsert_embeddings
        (test_world [''a.jpg'', ''x.txt'', ''b.jpg''] [''imgs/x.txt''] (\<lambda>k. None)) ''imgs'' 2 ''cards'')
     = snd (batch_upsert_embeddings
        ((test_world [''a.jpg'', ''x.txt'', ''b.jpg''] [''imgs/x.txt''] (\<lambda>k. None))
           \<lparr>listdir := \<lambda>_. [''a.jpg''] @ [''b.jpg'']\<rparr>) ''imgs'' 2 ''cards'')
   \<and> ErrorProcessing ''x.txt'' AttributeError \<in> set (printed (fst (batch_upsert_embeddings
        (test_world [''a.jpg'', ''x.txt'', ''b.jpg''] [''imgs/x.txt''] (\<lambda>k. None)) ''imgs'' 2 ''cards'')))"
proof -
  let ?w = "test_world [''a.jpg'', ''x.txt'', ''b.jpg''] [''imgs/x.txt''] (\<lambda>k. None)"
  have a: "listdir ?w ''imgs'' = [''a.jpg''] @ [''x.txt''] @ [''b.jpg'']"
    by simp
  have b: "embed_image ?w (path_join ''imgs'' ''x.txt'') = Inl AttributeError"
    by (rule test_embed_bad) (simp add: path_join_def)
  note t = failed_entry_is_skipped [OF a b refl refl, of 2 "''cards''"]
  show ?thesis
    using a b t by blast
qed

lemma ingest_with_unreadable_entry:
  "map (map vec_id \<circ> snd) (calls (fst (batch_upsert_embeddings
      (test_world [''a.jpg'', ''x.txt'', ''b.jpg''] [''imgs/x.txt''] (\<lambda>k. None)) ''imgs'' 2 ''cards'')))
   = [[''a.jpg'', ''b.jpg'']]"
  by (simp add: batch_upsert_embeddings_def loop_body_def test_embed_ok test_embed_bad
      index_upsert_def run0_def Let_def path_join_def)

text \<open>
  C7 does not hold of the code when an upsert inside the loop raises. The call is
  inside the \<^verbatim>\<open>try\<close> block, so its exception is caught as if the image had failed,
  and \<^verbatim>\<open>batch.clear()\<close> is skipped: the vectors stay in the buffer and are sent
  again by the next call. With one image, batch size 1 and a first call that
  raises, the vector of the image is carried by two calls.
\<close>

theorem upsert_failure_resends:
  "embed_image (test_world [''a.jpg''] [] fail_first) (path_join ''imgs'' ''a.jpg'') = Inr [1]
   \<and> batch_upsert_embeddings (test_world [''a.jpg''] [] fail_first) ''imgs'' 1 ''cards''
     = (\<lparr>batch = [\<lparr>vec_id = ''a.jpg'', vec_values = [1]\<rparr>],
         calls = [(''cards'', [\<lparr>vec_id = ''a.jpg'', vec_values = [1]\<rparr>]),
                  (''cards'', [\<lparr>vec_id = ''a.jpg'', vec_values = [1]\<rparr>])],
         printed = [ErrorProcessing ''a.jpg'' (ExternalError ''unavailable''), UpsertedFinal 1]\<rparr>,
        None)"
  by (simp add: batch_upsert_embeddings_def loop_body_def test_embed_ok index_upsert_def
      run0_def Let_def fail_first_def)

text \<open>
  C2 does not hold of the code either, by the same defect, when an upsert inside
  the loop raises. Three images that all embed, batch size 2, and a first call that
  raises: the two vectors of that call stay in the buffer, so the second call
  carries three vectors, where \<open>3 mod 2 = 1\<close> is asked of the last call.
\<close>

theorem upsert_failure_changes_batches:
  "list_all (\<lambda>n. embed_image (test_world [''a.jpg'', ''b.jpg'', ''c.jpg''] [] fail_first)
                (path_join ''imgs'' n) = Inr [1])
     (listdir (test_world [''a.jpg'', ''b.jpg'', ''c.jpg''] [] fail_first) ''imgs'')
   \<and> snd (batch_upsert_embeddings (test_world [''a.jpg'', ''b.jpg'', ''c.jpg''] [] fail_first)
           ''imgs'' 2 ''cards'') = None
   \<and> map (map vec_id \<circ> snd) (calls (fst (batch_upsert_embeddings
           (test_world [''a.jpg'', ''b.jpg'', ''c.jpg''] [] fail_first) ''imgs'' 2 ''cards'')))
       = [[''a.jpg'', ''b.jpg''], [''a.jpg'', ''b.jpg'', ''c.jpg'']]"
  by (simp add: batch_upsert_embeddings_def loop_body_def test_embed_ok index_upsert_def
      run0_def Let_def fail_first_def)


section \<open>The metadata key\<close>

lemma py_split_first:
  "\<exists>ps. py_split sep s = takeWhile (\<lambda>c. c \<noteq> sep) s # ps"
  by (induction s) (auto split: list.splits)

lemma get_card_id_first_piece:
  "matches qr = m # ms \<Longrightarrow>
   get_card_id qr = Inr (takeWhile (\<lambda>c. c \<noteq> CHR ''.'') (match_id m))"
  using py_split_first [of "CHR ''.''" "match_id m"]
  by (auto simp: get_card_id_def)

text \<open>
  C8 does not hold of the code: \<^verbatim>\<open>id.split('.')[0]\<close> keeps what comes before the
  first dot of the file name, not what comes before the last one. For
  \<^verbatim>\<open>a.b.jpg\<close> the key is \<^verbatim>\<open>a\<close>, where the claim, and the comment above the
  function (``Remove the file extension from the top result ID''), ask for
  \<^verbatim>\<open>a.b\<close>.
\<close>

theorem get_card_id_cuts_at_first_dot:
  "get_card_id (one_match ''a.b.jpg'') = Inr ''a''"
  by (simp add: get_card_id_def one_match_def)

text \<open>A name with a single dot loses its extension, as the identifiers of the index do.\<close>

lemma get_card_id_uuid:
  "get_card_id (one_match ''a47456b8-cef8-4085-90b1-92788e16fd27.jpg'')
     = Inr ''a47456b8-cef8-4085-90b1-92788e16fd27''"
  by (simp add: get_card_id_def one_match_def)


section \<open>Reconciliation: the rows in memory\<close>

lemma map_of_dict_set: "map_of (dict_set k v d) = (map_of d)(k \<mapsto> v)"
  by (induction d) (auto simp: fun_eq_iff)


lemma dict_get_dict_set:
  "dict_get (dict_set k v d) k' dflt = (if k' = k then v else dict_get d k' dflt)"
  by (simp add: dict_get_def map_of_dict_set)


lemma update_rows_match:
  assumes "list_all (other_id cid) pre"
    and "map_of row ''id'' = Some cid"
    and "map_of row ''number_owned'' = Some owned"
    and "py_int lib owned = Inr n"
    and "py_float lib price = Inr p"
  shows "update_rows lib cid price (pre @ row # post) = Inr (True, pre @ bump n p row # post)"
  using assms
  by (induction pre) (auto simp: other_id_def dict_item_def bump_def)

lemma update_rows_found:
  assumes "update_rows lib cid price rows = Inr (True, rows')"
  shows "\<exists>pre row post owned n p.
           rows = pre @ row # post \<and> list_all (other_id cid) pre
         \<and> map_of row ''id'' = Some cid
         \<and> map_of row ''number_owned'' = Some owned \<and> py_int lib owned = Inr n
         \<and> py_float lib price = Inr p
         \<and> rows' = pre @ bump n p row # post"
  using assms
proof (induction rows arbitrary: rows')
  case Nil
  then show ?case by simp
next
  case (Cons r rows)
  obtain rid where rid: "map_of r ''id'' = Some rid"
    using Cons.prems by (auto simp: dict_item_def split: option.splits)
  show ?case
  proof (cases "rid = cid")
    case True
    with Cons.prems rid obtain owned n p where
      "map_of r ''number_owned'' = Some owned" "py_int lib owned = Inr n"
      "py_float lib price = Inr p" "rows' = bump n p r # rows"
      by (auto simp: dict_item_def bump_def Let_def split: option.splits sum.splits)
    with True rid show ?thesis
      by (intro exI[of _ "[]"] exI[of _ r] exI[of _ rows] exI[of _ owned] exI[of _ n] exI[of _ p])
        simp
  next
    case False
    with Cons.prems rid obtain rows1 where
      u: "update_rows lib cid price rows = Inr (True, rows1)" and r': "rows' = r # rows1"
      by (auto simp: dict_item_def split: sum.splits)
    from Cons.IH[OF u] obtain pre row post owned n p where
      h: "rows = pre @ row # post" "list_all (other_id cid) pre"
         "map_of row ''id'' = Some cid"
         "map_of row ''number_owned'' = Some owned" "py_int lib owned = Inr n"
         "py_float lib price = Inr p"
         "rows1 = pre @ bump n p row # post"
      by blast
    have "list_all (other_id cid) (r # pre)"
      using h(2) rid False by (simp add: other_id_def)
    with h r' show ?thesis
      by (intro exI[of _ "r # pre"] exI[of _ row] exI[of _ post] exI[of _ owned] exI[of _ n]
          exI[of _ p]) simp
  qed
qed

lemma update_rows_not_found:
  assumes "update_rows lib cid price rows = Inr (False, rows')"
  shows "rows' = rows \<and> list_all (other_id cid) rows"
  using assms
proof (induction rows arbitrary: rows')
  case Nil
  then show ?case by simp
next
  case (Cons r rows)
  then show ?case
    by (auto simp: dict_item_def other_id_def Let_def split: option.splits sum.splits if_splits)
qed

lemma update_rows_price_error:
  assumes "py_float lib price = Inl e" "update_rows lib cid price rows = Inr (b, rows')"
  shows "\<not> b"
proof
  assume b
  with assms(2) have "update_rows lib cid price rows = Inr (True, rows')" by simp
  from update_rows_found[OF this] assms(1) show False by auto
qed

lemma merge_card_unfold:
  assumes "map_of card_data ''id'' = Some cid" "map_of card_data ''name'' = Some name"
    and "card_type_line card_data = Inr tline" "card_price card_data = Inr price"
  shows "merge_card lib (PDict card_data) rows =
     (case update_rows lib cid price rows of
        Inl e \<Rightarrow> Inl e
      | Inr (row_exists, rows1) \<Rightarrow>
          if \<not> row_exists then
            (case py_float lib price of
               Inl e \<Rightarrow> Inl e
             | Inr p \<Rightarrow> Inr (rows1 @ [new_row card_data cid name tline price p]))
          else Inr rows1)"
  by (simp add: merge_card_def dict_item_def assms)

lemma merge_card_fields:
  assumes "merge_card lib c rows = Inr rows'"
  shows "\<exists>card_data cid name tline price.
           c = PDict card_data
         \<and> map_of card_data ''id'' = Some cid \<and> map_of card_data ''name'' = Some name
         \<and> card_type_line card_data = Inr tline \<and> card_price card_data = Inr price"
proof -
  obtain card_data where c: "c = PDict card_data"
    using assms by (cases c) (simp_all add: merge_card_def)
  obtain cid where cid: "map_of card_data ''id'' = Some cid"
    using assms c by (cases "map_of card_data ''id''") (simp_all add: merge_card_def dict_item_def)
  obtain name where name: "map_of card_data ''name'' = Some name"
    using assms c cid
    by (cases "map_of card_data ''name''") (simp_all add: merge_card_def dict_item_def)
  obtain tline where tline: "card_type_line card_data = Inr tline"
    using assms c cid name
    by (cases "card_type_line card_data") (simp_all add: merge_card_def dict_item_def)
  obtain price where price: "card_price card_data = Inr price"
    using assms c cid name tline
    by (cases "card_price card_data") (simp_all add: merge_card_def dict_item_def)
  show ?thesis using c cid name tline price by blast
qed

lemma merge_card_price_error:
  assumes "card_price card_data = Inr price" "py_float lib price = Inl e"
  shows "\<exists>e'. merge_card lib (PDict card_data) rows = Inl e'"
proof (cases "merge_card lib (PDict card_data) rows")
  case (Inl e')
  then show ?thesis by blast
next
  case (Inr rows')
  from merge_card_fields[OF Inr] assms(1) obtain cid name tline where
    f: "map_of card_data ''id'' = Some cid" "map_of card_data ''name'' = Some name"
       "card_type_line card_data = Inr tline"
    by auto
  note u = merge_card_unfold[OF f assms(1), of lib rows]
  show ?thesis
  proof (cases "update_rows lib cid price rows")
    case (Inl e')
    then show ?thesis using u by simp
  next
    case (Inr r)
    obtain b rows1 where r: "r = (b, rows1)" by (cases r)
    have "\<not> b" using update_rows_price_error[OF assms(2)] Inr r by blast
    then show ?thesis using u Inr r assms(2) by simp
  qed
qed


section \<open>Reconciliation: the file\<close>

lemma add_card_merge_error:
  assumes "get_card_details net tid = Inr c" "merge_card lib c (read_rows fs path) = Inl e"
  shows "add_card_data_to_csv lib net fs path tid = (fs, Some e)"
  using assms by (simp add: add_card_data_to_csv_def)


lemma writerows_done:
  "writerows lib rows = (t, None) \<Longrightarrow>
   t = map (csv_line lib) rows \<and> list_all (\<lambda>row. fst ` set row \<subseteq> set fieldnames) rows"
  by (induction rows arbitrary: t) (auto split: if_splits prod.splits)

lemma add_card_success:
  assumes "add_card_data_to_csv lib net fs path tid = (fs', None)"
  shows "\<exists>c rows'. get_card_details net tid = Inr c
           \<and> merge_card lib c (read_rows fs path) = Inr rows'
           \<and> list_all (\<lambda>row. fst ` set row \<subseteq> set fieldnames) rows'
           \<and> fs' = fs(path \<mapsto> map (csv_line lib) rows')"
proof -
  obtain c where c: "get_card_details net tid = Inr c"
    using assms by (cases "get_card_details net tid") (simp_all add: add_card_data_to_csv_def)
  obtain rows' where m: "merge_card lib c (read_rows fs path) = Inr rows'"
    using assms c
    by (cases "merge_card lib c (read_rows fs path)") (simp_all add: add_card_data_to_csv_def)
  obtain t e where w: "writerows lib rows' = (t, e)"
    by (cases "writerows lib rows'")
  have "e = None" "fs' = fs(path \<mapsto> t)"
    using assms c m w by (simp_all add: add_card_data_to_csv_def)
  with writerows_done[of lib rows' t] w c m show ?thesis by blast
qed

lemma merge_card_result:
  assumes m: "merge_card lib (PDict card_data) rows = Inr rows'"
    and f: "map_of card_data ''id'' = Some cid" "map_of card_data ''name'' = Some name"
      "card_type_line card_data = Inr tline" "card_price card_data = Inr price"
  shows "\<exists>p. py_float lib price = Inr p
         \<and> ((list_all (other_id cid) rows
               \<and> rows' = rows @ [new_row card_data cid name tline price p])
            \<or> (\<exists>pre row post owned n.
                  rows = pre @ row # post \<and> list_all (other_id cid) pre
                \<and> map_of row ''id'' = Some cid
                \<and> map_of row ''number_owned'' = Some owned \<and> py_int lib owned = Inr n
                \<and> rows' = pre @ bump n p row # post))"
proof -
  note u = merge_card_unfold[OF f, of lib rows]
  obtain b rows1 where ur: "update_rows lib cid price rows = Inr (b, rows1)"
    using m u by (cases "update_rows lib cid price rows") auto
  show ?thesis
  proof (cases b)
    case True
    with ur u m have r: "rows' = rows1" by simp
    have "update_rows lib cid price rows = Inr (True, rows')"
      using ur True r by simp
    from update_rows_found[OF this] obtain pre row post owned n p where
      g: "rows = pre @ row # post \<and> list_all (other_id cid) pre
         \<and> map_of row ''id'' = Some cid
         \<and> map_of row ''number_owned'' = Some owned \<and> py_int lib owned = Inr n
         \<and> py_float lib price = Inr p
         \<and> rows' = pre @ bump n p row # post"
      by blast
    have "\<exists>pre row post owned n.
                  rows = pre @ row # post \<and> list_all (other_id cid) pre
                \<and> map_of row ''id'' = Some cid
                \<and> map_of row ''number_owned'' = Some owned \<and> py_int lib owned = Inr n
                \<and> rows' = pre @ bump n p row # post"
      using g by (intro exI[of _ pre] exI[of _ row] exI[of _ post] exI[of _ owned] exI[of _ n])
        simp
    moreover have "py_float lib price = Inr p" using g by simp
    ultimately show ?thesis by (intro exI[of _ p] conjI disjI2)
  next
    case False
    with ur u m obtain p where p: "py_float lib price = Inr p"
        "rows' = rows1 @ [new_row card_data cid name tline price p]"
      by (cases "py_float lib price") auto
    have "update_rows lib cid price rows = Inr (False, rows1)"
      using ur False by simp
    from update_rows_not_found[OF this]
    have "rows1 = rows" "list_all (other_id cid) rows" by simp_all
    with p show ?thesis by (intro exI[of _ p] conjI disjI1) simp_all
  qed
qed

lemma scryfall_shuko:
  "get_card_details (scryfall usd) ''a47456b8'' = Inr (PDict (shuko_data usd))"
  by (simp add: get_card_details_def scryfall_def)

lemma shuko_price: "card_price (shuko_data usd) = Inr usd"
  by (simp add: card_price_def shuko_data_def dict_get_def)

lemma plain_float_rejects:
  "plain_float '''' = None" "plain_float ''n/a'' = None"
  by (simp_all add: plain_float_def digits_val.simps digit_val_def Let_def)

lemma map_of_read_row:
  "map_of (map (\<lambda>(k, s). (k, PStr s)) r) k = map_option PStr (map_of r k)"
  by (induction r) auto

lemma csv_read_append: "csv_read (a @ x # b) = csv_read a @ map (\<lambda>(k, s). (k, PStr s)) x # csv_read b"
  by (simp add: csv_read_def)

lemma other_id_read_row:
  "other_id (PStr sid) (map (\<lambda>(k, s). (k, PStr s)) r)
     \<longleftrightarrow> (\<exists>s. map_of r ''id'' = Some s \<and> s \<noteq> sid)"
  by (auto simp: other_id_def map_of_read_row)

lemma other_id_csv_read:
  "list_all (\<lambda>r. \<exists>s. map_of r ''id'' = Some s \<and> s \<noteq> sid) t
   \<Longrightarrow> list_all (other_id (PStr sid)) (csv_read t)"
  by (induction t) (simp_all add: csv_read_def other_id_read_row)

lemma map_of_keyed:
  "map_of (map (\<lambda>k. (k, f k)) ks) k = (if k \<in> set ks then Some (f k) else None)"
  by (induction ks) auto

lemma map_of_csv_line:
  "k \<in> set fieldnames \<Longrightarrow>
   map_of (csv_line lib row) k = Some (cell_text lib (dict_get row k (PStr [])))"
  by (simp add: csv_line_def map_of_keyed)

lemma update_rows_at_match:
  assumes "list_all (other_id cid) pre" "map_of row ''id'' = Some cid"
  shows "update_rows lib cid price (pre @ row # post) =
     (case dict_item row ''number_owned'' of
        Inl e \<Rightarrow> Inl e
      | Inr owned \<Rightarrow>
          (case py_int lib owned of
             Inl e \<Rightarrow> Inl e
           | Inr n \<Rightarrow>
               (case py_float lib price of
                  Inl e \<Rightarrow> Inl e
                | Inr p \<Rightarrow> Inr (True, pre @ bump n p row # post))))"
  using assms(1)
proof (induction pre)
  case Nil
  show ?case
    using assms(2) by (simp add: dict_item_def bump_def Let_def split: sum.splits option.splits)
next
  case (Cons r pre)
  from Cons.prems have o: "other_id cid r" and l: "list_all (other_id cid) pre"
    by simp_all
  from o obtain rid where "map_of r ''id'' = Some rid" "rid \<noteq> cid"
    by (auto simp: other_id_def)
  then show ?case
    using Cons.IH[OF l] by (simp add: dict_item_def split: sum.splits option.splits)
qed

lemma py_int_str: "py_int lib (PStr s) = Inr n \<longleftrightarrow> str_to_int lib s = Some n"
  by (simp add: py_int_def split: option.splits)

lemma bump_cells:
  "dict_get (bump n p row) ''number_owned'' d = PInt (n + 1)"
  "dict_get (bump n p row) ''total_value'' d = PFloat (of_int (n + 1) * p)"
  "k \<noteq> ''number_owned'' \<Longrightarrow> k \<noteq> ''total_value'' \<Longrightarrow> dict_get (bump n p row) k d = dict_get row k d"
  by (simp_all add: bump_def dict_get_dict_set)

lemma new_row_cells:
  "map_of (new_row card_data cid name tline price p) ''id'' = Some cid"
  "map_of (new_row card_data cid name tline price p) ''number_owned'' = Some (PInt 1)"
  "map_of (new_row card_data cid name tline price p) ''total_value'' = Some (PFloat p)"
  "map_of (new_row card_data cid name tline price p) ''price'' = Some price"
  by (simp_all add: new_row_def)

lemma bump_map_of:
  "map_of (bump n p row) ''number_owned'' = Some (PInt (n + 1))"
  "map_of (bump n p row) ''total_value'' = Some (PFloat (of_int (n + 1) * p))"
  "map_of (bump n p row) ''id'' = map_of row ''id''"
  by (simp_all add: bump_def map_of_dict_set)

text \<open>Two reconciliations of the card of the notebook, computed.\<close>

lemma reconcile_existing_row:
  "snd (add_card_data_to_csv plain_lib (scryfall (PStr ''2.00''))
         (catalog [shuko_row ''1.00'' ''1'' ''1.0'']) ''Output/mtg_catalog.csv'' ''a47456b8'') = None"
  "fst (add_card_data_to_csv plain_lib (scryfall (PStr ''2.00''))
         (catalog [shuko_row ''1.00'' ''1'' ''1.0'']) ''Output/mtg_catalog.csv'' ''a47456b8'')
     ''Output/mtg_catalog.csv'' = Some [shuko_row ''1.00'' ''2'' ''4.0'']"
  by code_simp+

lemma reconcile_new_row:
  "snd (add_card_data_to_csv plain_lib (scryfall (PStr ''14.25'')) no_files
         ''Output/mtg_catalog.csv'' ''a47456b8'') = None"
  "fst (add_card_data_to_csv plain_lib (scryfall (PStr ''14.25'')) no_files
         ''Output/mtg_catalog.csv'' ''a47456b8'')
     ''Output/mtg_catalog.csv'' = Some [shuko_row ''14.25'' ''1'' ''14.25'']"
  by code_simp+



















lemma reconcile_twice_example:
  "fst (add_card_data_to_csv plain_lib (scryfall (PStr ''14.25''))
         (catalog [shuko_row ''14.25'' ''1'' ''14.25'']) ''Output/mtg_catalog.csv'' ''a47456b8'')
     ''Output/mtg_catalog.csv'' = Some [shuko_row ''14.25'' ''2'' ''28.5'']"
  by code_simp


section \<open>A price that cannot be read\<close>

lemma card_price_cases:
  "map_of card_data ''prices'' = None \<Longrightarrow> card_price card_data = Inr (PStr [])"
  "map_of card_data ''prices'' = Some (PDict prices) \<Longrightarrow> map_of prices ''usd'' = None \<Longrightarrow>
     card_price card_data = Inr (PStr [])"
  "map_of card_data ''prices'' = Some (PDict prices) \<Longrightarrow> map_of prices ''usd'' = Some v \<Longrightarrow>
     card_price card_data = Inr v"
  by (simp_all add: card_price_def dict_get_def)

lemma py_float_raises:
  "py_float lib PNone = Inl TypeError"
  "str_to_float lib s = None \<Longrightarrow> py_float lib (PStr s) = Inl ValueError"
  by (simp_all add: py_float_def)

text \<open>
  C9: \<open>price\<close> is what the function reads from the record:
  \<^verbatim>\<open>card_data.get('prices', {}).get('usd', '')\<close>, that is the empty string when the
  field is missing, \<^verbatim>\<open>None\<close> when it is null, the string otherwise. When
  \<^verbatim>\<open>float(price)\<close> raises (\<^verbatim>\<open>TypeError\<close> on \<^verbatim>\<open>None\<close>, \<^verbatim>\<open>ValueError\<close> on the empty
  string and on any string that is not a number), the call ends with an exception
  and the files are as before: no row is added and no row is changed, whatever
  the ledger holds, so both when the card has a row already and when it has none.
\<close>

theorem unavailable_price_is_rejected:
  assumes "get_card_details net tid = Inr (PDict card_data)"
    and "card_price card_data = Inr price"
    and "py_float lib price = Inl e"
  shows "\<exists>e'. add_card_data_to_csv lib net fs path tid = (fs, Some e')"
proof -
  obtain e' where "merge_card lib (PDict card_data) (read_rows fs path) = Inl e'"
    using merge_card_price_error[OF assms(2,3)] by blast
  then show ?thesis
    using add_card_merge_error[OF assms(1)] by blast
qed

text \<open>A null price for a card that has a row in the ledger.\<close>

theorem unavailable_price_is_rejected_witness:
  "get_card_details (scryfall PNone) ''a47456b8'' = Inr (PDict (shuko_data PNone))
   \<and> card_price (shuko_data PNone) = Inr PNone
   \<and> py_float plain_lib PNone = Inl TypeError
   \<and> (\<exists>e'. add_card_data_to_csv plain_lib (scryfall PNone)
               (catalog [shuko_row ''14.25'' ''1'' ''14.25''])
               ''Output/mtg_catalog.csv'' ''a47456b8''
             = (catalog [shuko_row ''14.25'' ''1'' ''14.25''], Some e'))"
proof -
  have a: "get_card_details (scryfall PNone) ''a47456b8'' = Inr (PDict (shuko_data PNone))"
    by (rule scryfall_shuko)
  have b: "card_price (shuko_data PNone) = Inr PNone"
    by (rule shuko_price)
  have c: "py_float plain_lib PNone = Inl TypeError"
    by (simp add: py_float_def)
  note t = unavailable_price_is_rejected [OF a b c]
  show ?thesis
    by (intro conjI a b c t)
qed

text \<open>
  C10: when \<^verbatim>\<open>float(price)\<close> raises, the call leaves with the exception before the
  file is opened for writing: the files after the call are the files before it, so
  the row whose \<^verbatim>\<open>number_owned\<close> was incremented in memory is never written.
\<close>

theorem price_error_leaves_file:
  assumes "get_card_details net tid = Inr (PDict card_data)"
    and "card_price card_data = Inr price"
    and "py_float lib price = Inl e"
  shows "fst (add_card_data_to_csv lib net fs path tid) = fs
       \<and> snd (add_card_data_to_csv lib net fs path tid) \<noteq> None"
proof -
  obtain e' where "merge_card lib (PDict card_data) (read_rows fs path) = Inl e'"
    using merge_card_price_error[OF assms(2,3)] by blast
  then have "add_card_data_to_csv lib net fs path tid = (fs, Some e')"
    using add_card_merge_error[OF assms(1)] by blast
  then show ?thesis by simp
qed

text \<open>A price that is not a number, with no ledger file yet.\<close>

theorem price_error_leaves_file_witness:
  "get_card_details (scryfall (PStr ''n/a'')) ''a47456b8'' = Inr (PDict (shuko_data (PStr ''n/a'')))
   \<and> card_price (shuko_data (PStr ''n/a'')) = Inr (PStr ''n/a'')
   \<and> py_float plain_lib (PStr ''n/a'') = Inl ValueError
   \<and> fst (add_card_data_to_csv plain_lib (scryfall (PStr ''n/a'')) no_files
            ''Output/mtg_catalog.csv'' ''a47456b8'') = no_files
   \<and> snd (add_card_data_to_csv plain_lib (scryfall (PStr ''n/a'')) no_files
            ''Output/mtg_catalog.csv'' ''a47456b8'') \<noteq> None"
proof -
  have a: "get_card_details (scryfall (PStr ''n/a'')) ''a47456b8''
      = Inr (PDict (shuko_data (PStr ''n/a'')))"
    by (rule scryfall_shuko)
  have b: "card_price (shuko_data (PStr ''n/a'')) = Inr (PStr ''n/a'')"
    by (rule shuko_price)
  have c: "py_float plain_lib (PStr ''n/a'') = Inl ValueError"
    by (simp add: py_float_def plain_lib_def plain_float_rejects)
  note t = price_error_leaves_file [OF a b c, of no_files "''Output/mtg_catalog.csv''"]
  show ?thesis
    using a b c t by simp
qed


section \<open>A card that has a row\<close>

text \<open>
  C4, as stated, for a row stored with the price 14.25 and a card now priced
  15.00: the call succeeds, the row has 2 copies and the total 30.0, and its price
  cell is still 14.25.
\<close>

theorem stored_price_is_kept:
  "add_card_data_to_csv plain_lib (scryfall (PStr ''15.00''))
         (catalog [shuko_row ''14.25'' ''1'' ''14.25'']) ''Output/mtg_catalog.csv'' ''a47456b8''
     = (fst (add_card_data_to_csv plain_lib (scryfall (PStr ''15.00''))
         (catalog [shuko_row ''14.25'' ''1'' ''14.25'']) ''Output/mtg_catalog.csv'' ''a47456b8''),
        None)
   \<and> fst (add_card_data_to_csv plain_lib (scryfall (PStr ''15.00''))
         (catalog [shuko_row ''14.25'' ''1'' ''14.25'']) ''Output/mtg_catalog.csv'' ''a47456b8'')
       ''Output/mtg_catalog.csv'' = Some [shuko_row ''14.25'' ''2'' ''30.0'']
   \<and> card_price (shuko_data (PStr ''15.00'')) = Inr (PStr ''15.00'')
   \<and> map_of (shuko_row ''14.25'' ''2'' ''30.0'') ''price'' = Some ''14.25''
   \<and> ''14.25'' \<noteq> ''15.00''"
proof -
  have a: "snd (add_card_data_to_csv plain_lib (scryfall (PStr ''15.00''))
         (catalog [shuko_row ''14.25'' ''1'' ''14.25'']) ''Output/mtg_catalog.csv'' ''a47456b8'')
       = None"
    by code_simp
  have b: "fst (add_card_data_to_csv plain_lib (scryfall (PStr ''15.00''))
         (catalog [shuko_row ''14.25'' ''1'' ''14.25'']) ''Output/mtg_catalog.csv'' ''a47456b8'')
       ''Output/mtg_catalog.csv'' = Some [shuko_row ''14.25'' ''2'' ''30.0'']"
    by code_simp
  have c: "map_of (shuko_row ''14.25'' ''2'' ''30.0'') ''price'' = Some ''14.25''"
    by (simp add: shuko_row_def)
  show ?thesis
    using a b c by (simp add: prod_eq_iff shuko_price)
qed

text \<open>
  C4, amended: when the call succeeds for a card whose identifier is \<open>sid\<close>, and
  \<open>stored\<close> is the first row of the file with that identifier, holding \<open>n\<close> copies,
  then the row written in its place has \<^verbatim>\<open>number_owned\<close> \<open>n + 1\<close> and \<^verbatim>\<open>total_value\<close>
  \<open>(n + 1) * p\<close> for the price \<open>p\<close> just read from the record, and its \<^verbatim>\<open>price\<close>
  cell is the one that was stored: the code assigns \<^verbatim>\<open>number_owned\<close> and
  \<^verbatim>\<open>total_value\<close> only.
\<close>

theorem existing_row_is_updated:
  assumes ok: "add_card_data_to_csv lib net fs path tid = (fs', None)"
    and net: "get_card_details net tid = Inr (PDict card_data)"
    and cid: "map_of card_data ''id'' = Some (PStr sid)"
    and ledger: "fs path = Some (pre @ stored # post)"
    and pre: "list_all (\<lambda>r. \<exists>s. map_of r ''id'' = Some s \<and> s \<noteq> sid) pre"
    and stored: "map_of stored ''id'' = Some sid" "map_of stored ''price'' = Some old_price"
  shows "\<exists>owned n price p t'.
           map_of stored ''number_owned'' = Some owned \<and> str_to_int lib owned = Some n
         \<and> card_price card_data = Inr price \<and> py_float lib price = Inr p
         \<and> fs' path = Some t' \<and> length t' = length (pre @ stored # post)
         \<and> map_of (t' ! length pre) ''number_owned'' = Some (str_int (n + 1))
         \<and> map_of (t' ! length pre) ''total_value''
             = Some (py_repr lib (PFloat (of_int (n + 1) * p)))
         \<and> map_of (t' ! length pre) ''price'' = Some old_price"
proof -
  let ?R = "map (\<lambda>(k, s). (k, PStr s)) stored"
  have rows: "read_rows fs path = csv_read pre @ ?R # csv_read post"
    by (simp add: read_rows_def ledger csv_read_append)
  from add_card_success[OF ok] net obtain rows' where
    m: "merge_card lib (PDict card_data) (read_rows fs path) = Inr rows'"
    and fs': "fs' = fs(path \<mapsto> map (csv_line lib) rows')"
    by auto
  from merge_card_fields[OF m] cid obtain name tline price where
    f: "map_of card_data ''name'' = Some name" "card_type_line card_data = Inr tline"
       "card_price card_data = Inr price"
    by auto
  have no: "list_all (other_id (PStr sid)) (csv_read pre)"
    by (rule other_id_csv_read[OF pre])
  have rid: "map_of ?R ''id'' = Some (PStr sid)"
    by (simp add: map_of_read_row stored)
  note u = update_rows_at_match[OF no rid, of lib price "csv_read post"]
  note mu = merge_card_unfold[OF cid f, of lib "read_rows fs path"]
  have ur: "\<exists>r. update_rows lib (PStr sid) price (read_rows fs path) = Inr r"
    using m mu by (cases "update_rows lib (PStr sid) price (read_rows fs path)") simp_all
  obtain owned where owned: "map_of stored ''number_owned'' = Some owned"
    using ur u rows
    by (cases "map_of stored ''number_owned''") (simp_all add: dict_item_def map_of_read_row)
  have di: "dict_item ?R ''number_owned'' = Inr (PStr owned)"
    by (simp add: dict_item_def map_of_read_row owned)
  obtain n where n: "py_int lib (PStr owned) = Inr n"
    using ur u rows di by (cases "py_int lib (PStr owned)") simp_all
  obtain p where p: "py_float lib price = Inr p"
    using ur u rows di n by (cases "py_float lib price") simp_all
  have "update_rows lib (PStr sid) price (read_rows fs path)
      = Inr (True, csv_read pre @ bump n p ?R # csv_read post)"
    using u rows di n p by simp
  then have rows': "rows' = csv_read pre @ bump n p ?R # csv_read post"
    using m mu by simp
  define t' where "t' = map (csv_line lib) rows'"
  have a: "fs' path = Some t'" by (simp add: fs' t'_def)
  have b: "length t' = length (pre @ stored # post)"
    by (simp add: t'_def rows' csv_read_def)
  have "length (csv_read pre) = length pre" by (simp add: csv_read_def)
  then have row: "t' ! length pre = csv_line lib (bump n p ?R)"
    by (simp add: t'_def rows' nth_append)
  have c1: "map_of (t' ! length pre) ''number_owned'' = Some (str_int (n + 1))"
    by (simp add: row map_of_csv_line fieldnames_def bump_cells cell_text_def)
  have c2: "map_of (t' ! length pre) ''total_value''
             = Some (py_repr lib (PFloat (of_int (n + 1) * p)))"
    by (simp add: row map_of_csv_line fieldnames_def bump_cells cell_text_def)
  have "dict_get ?R ''price'' (PStr []) = PStr old_price"
    by (simp add: dict_get_def map_of_read_row stored)
  then have "dict_get (bump n p ?R) ''price'' (PStr []) = PStr old_price"
    by (simp add: bump_cells)
  then have c3: "map_of (t' ! length pre) ''price'' = Some old_price"
    by (simp add: row map_of_csv_line fieldnames_def cell_text_def)
  have s: "str_to_int lib owned = Some n" using n by (simp add: py_int_str)
  show ?thesis
    using owned s f(3) p a b c1 c2 c3 by blast
qed

text \<open>A row stored at 14.25 and a card now priced 15.00.\<close>

theorem existing_row_is_updated_witness:
  "add_card_data_to_csv plain_lib (scryfall (PStr ''15.00''))
         (catalog ([] @ shuko_row ''14.25'' ''1'' ''14.25'' # [])) ''Output/mtg_catalog.csv''
         ''a47456b8''
     = (fst (add_card_data_to_csv plain_lib (scryfall (PStr ''15.00''))
         (catalog ([] @ shuko_row ''14.25'' ''1'' ''14.25'' # [])) ''Output/mtg_catalog.csv''
         ''a47456b8''), None)
   \<and> get_card_details (scryfall (PStr ''15.00'')) ''a47456b8''
       = Inr (PDict (shuko_data (PStr ''15.00'')))
   \<and> map_of (shuko_data (PStr ''15.00'')) ''id'' = Some (PStr ''a47456b8'')
   \<and> catalog ([] @ shuko_row ''14.25'' ''1'' ''14.25'' # []) ''Output/mtg_catalog.csv''
       = Some ([] @ shuko_row ''14.25'' ''1'' ''14.25'' # [])
   \<and> map_of (shuko_row ''14.25'' ''1'' ''14.25'') ''id'' = Some ''a47456b8''
   \<and> map_of (shuko_row ''14.25'' ''1'' ''14.25'') ''price'' = Some ''14.25''
   \<and> (\<exists>owned n price p t'.
           map_of (shuko_row ''14.25'' ''1'' ''14.25'') ''number_owned'' = Some owned
         \<and> str_to_int plain_lib owned = Some n
         \<and> card_price (shuko_data (PStr ''15.00'')) = Inr price
         \<and> py_float plain_lib price = Inr p
         \<and> fst (add_card_data_to_csv plain_lib (scryfall (PStr ''15.00''))
              (catalog ([] @ shuko_row ''14.25'' ''1'' ''14.25'' # [])) ''Output/mtg_catalog.csv''
              ''a47456b8'') ''Output/mtg_catalog.csv'' = Some t'
         \<and> length t' = length ([] @ shuko_row ''14.25'' ''1'' ''14.25'' # [])
         \<and> map_of (t' ! length ([] :: table)) ''number_owned'' = Some (str_int (n + 1))
         \<and> map_of (t' ! length ([] :: table)) ''total_value''
             = Some (py_repr plain_lib (PFloat (of_int (n + 1) * p)))
         \<and> map_of (t' ! length ([] :: table)) ''price'' = Some ''14.25'')"
proof -
  let ?fs = "catalog ([] @ shuko_row ''14.25'' ''1'' ''14.25'' # [])"
  have "snd (add_card_data_to_csv plain_lib (scryfall (PStr ''15.00'')) ?fs
          ''Output/mtg_catalog.csv'' ''a47456b8'') = None"
    by code_simp
  then have ok: "add_card_data_to_csv plain_lib (scryfall (PStr ''15.00'')) ?fs
          ''Output/mtg_catalog.csv'' ''a47456b8''
     = (fst (add_card_data_to_csv plain_lib (scryfall (PStr ''15.00'')) ?fs
          ''Output/mtg_catalog.csv'' ''a47456b8''), None)"
    by (simp add: prod_eq_iff)
  have net: "get_card_details (scryfall (PStr ''15.00'')) ''a47456b8''
       = Inr (PDict (shuko_data (PStr ''15.00'')))"
    by (rule scryfall_shuko)
  have cid: "map_of (shuko_data (PStr ''15.00'')) ''id'' = Some (PStr ''a47456b8'')"
    by (simp add: shuko_data_def)
  have led: "?fs ''Output/mtg_catalog.csv'' = Some ([] @ shuko_row ''14.25'' ''1'' ''14.25'' # [])"
    by (simp add: catalog_def)
  have pre: "list_all (\<lambda>r. \<exists>s. map_of r ''id'' = Some s \<and> s \<noteq> ''a47456b8'') []"
    by simp
  have st: "map_of (shuko_row ''14.25'' ''1'' ''14.25'') ''id'' = Some ''a47456b8''"
    "map_of (shuko_row ''14.25'' ''1'' ''14.25'') ''price'' = Some ''14.25''"
    by (simp_all add: shuko_row_def)
  note t = existing_row_is_updated [OF ok net cid led pre st]
  show ?thesis
    by (intro conjI ok net cid led st t)
qed


section \<open>The total value of the reconciled row\<close>

text \<open>
  C3, as stated, for a row that satisfies the invariant with the price 1.00 and one
  copy, and a card now priced 2.00: the row written has 2 copies, the total 4.0 and
  the price 1.00, and \<open>4.0 \<noteq> 2 * 1.00\<close>.
\<close>

theorem total_value_differs_from_stored_price:
  "total_value_invariant plain_lib (shuko_row ''1.00'' ''1'' ''1.0'')
   \<and> add_card_data_to_csv plain_lib (scryfall (PStr ''2.00''))
         (catalog [shuko_row ''1.00'' ''1'' ''1.0'']) ''Output/mtg_catalog.csv'' ''a47456b8''
       = (fst (add_card_data_to_csv plain_lib (scryfall (PStr ''2.00''))
         (catalog [shuko_row ''1.00'' ''1'' ''1.0'']) ''Output/mtg_catalog.csv'' ''a47456b8''), None)
   \<and> fst (add_card_data_to_csv plain_lib (scryfall (PStr ''2.00''))
         (catalog [shuko_row ''1.00'' ''1'' ''1.0'']) ''Output/mtg_catalog.csv'' ''a47456b8'')
         ''Output/mtg_catalog.csv'' = Some [shuko_row ''1.00'' ''2'' ''4.0'']
   \<and> \<not> total_value_invariant plain_lib (shuko_row ''1.00'' ''2'' ''4.0'')"
proof -
  have a: "total_value_invariant plain_lib (shuko_row ''1.00'' ''1'' ''1.0'')"
    by code_simp
  have b: "\<not> total_value_invariant plain_lib (shuko_row ''1.00'' ''2'' ''4.0'')"
    by code_simp
  show ?thesis
    using a b reconcile_existing_row by (simp add: prod_eq_iff)
qed

text \<open>
  C3, amended: when the call succeeds, the rows \<open>rows'\<close> handed to the writer hold a
  row for the card, at some position \<open>i\<close>, with \<^verbatim>\<open>total_value\<close> equal to
  \<^verbatim>\<open>number_owned\<close> times \<open>p\<close>, the price just read from the record. When that row is
  new (it comes after the rows read), it holds one copy and \<open>p\<close> is read from its
  own price cell. Every other row is a row read from the file, unchanged.
\<close>

theorem reconciled_row_value:
  assumes ok: "add_card_data_to_csv lib net fs path tid = (fs', None)"
  shows "\<exists>card_data cid price p rows' i n.
      get_card_details net tid = Inr (PDict card_data) \<and> map_of card_data ''id'' = Some cid
    \<and> card_price card_data = Inr price \<and> py_float lib price = Inr p
    \<and> fs' path = Some (map (csv_line lib) rows')
    \<and> i < length rows' \<and> map_of (rows' ! i) ''id'' = Some cid
    \<and> map_of (rows' ! i) ''number_owned'' = Some (PInt n)
    \<and> map_of (rows' ! i) ''total_value'' = Some (PFloat (of_int n * p))
    \<and> (length (read_rows fs path) \<le> i \<longrightarrow> n = 1 \<and> map_of (rows' ! i) ''price'' = Some price)
    \<and> (\<forall>j < length rows'. j \<noteq> i \<longrightarrow>
          j < length (read_rows fs path) \<and> rows' ! j = read_rows fs path ! j)"
proof -
  let ?rows = "read_rows fs path"
  from add_card_success[OF ok] obtain c rows' where
    net: "get_card_details net tid = Inr c"
    and m: "merge_card lib c ?rows = Inr rows'"
    and fs': "fs' = fs(path \<mapsto> map (csv_line lib) rows')"
    by blast
  from merge_card_fields[OF m] obtain card_data cid name tline price where
    c: "c = PDict card_data"
    and f: "map_of card_data ''id'' = Some cid" "map_of card_data ''name'' = Some name"
       "card_type_line card_data = Inr tline" "card_price card_data = Inr price"
    by blast
  from merge_card_result[OF m[unfolded c] f] obtain p where
    p: "py_float lib price = Inr p"
    and cases: "(list_all (other_id cid) ?rows
               \<and> rows' = ?rows @ [new_row card_data cid name tline price p])
            \<or> (\<exists>pre row post owned n.
                  ?rows = pre @ row # post \<and> list_all (other_id cid) pre
                \<and> map_of row ''id'' = Some cid
                \<and> map_of row ''number_owned'' = Some owned \<and> py_int lib owned = Inr n
                \<and> rows' = pre @ bump n p row # post)"
    by blast
  have written: "fs' path = Some (map (csv_line lib) rows')"
    by (simp add: fs')
  have "\<exists>i n. i < length rows' \<and> map_of (rows' ! i) ''id'' = Some cid
    \<and> map_of (rows' ! i) ''number_owned'' = Some (PInt n)
    \<and> map_of (rows' ! i) ''total_value'' = Some (PFloat (of_int n * p))
    \<and> (length ?rows \<le> i \<longrightarrow> n = 1 \<and> map_of (rows' ! i) ''price'' = Some price)
    \<and> (\<forall>j < length rows'. j \<noteq> i \<longrightarrow> j < length ?rows \<and> rows' ! j = ?rows ! j)"
  proof (rule disjE[OF cases])
    assume a: "list_all (other_id cid) ?rows
               \<and> rows' = ?rows @ [new_row card_data cid name tline price p]"
    then have r: "rows' = ?rows @ [new_row card_data cid name tline price p]" by simp
    have others: "\<forall>j < length rows'. j \<noteq> length ?rows \<longrightarrow>
          j < length ?rows \<and> rows' ! j = ?rows ! j"
      by (auto simp: r nth_append)
    show ?thesis
      by (rule exI[of _ "length ?rows"], rule exI[of _ 1])
        (use others in \<open>simp add: r new_row_cells\<close>)
  next
    assume "\<exists>pre row post owned n.
                  ?rows = pre @ row # post \<and> list_all (other_id cid) pre
                \<and> map_of row ''id'' = Some cid
                \<and> map_of row ''number_owned'' = Some owned \<and> py_int lib owned = Inr n
                \<and> rows' = pre @ bump n p row # post"
    then obtain pre row post n where
      b: "?rows = pre @ row # post" "map_of row ''id'' = Some cid"
         "rows' = pre @ bump n p row # post"
      by blast
    have others: "\<forall>j < length rows'. j \<noteq> length pre \<longrightarrow>
          j < length ?rows \<and> rows' ! j = ?rows ! j"
      by (auto simp: b(1,3) nth_append nth_Cons split: nat.splits)
    show ?thesis
      by (rule exI[of _ "length pre"], rule exI[of _ "n + 1"])
        (use others in \<open>simp add: b bump_map_of\<close>)
  qed
  then show ?thesis
    using net c f(1,4) p written by blast
qed

text \<open>The first reconciliation of the card of the notebook.\<close>

theorem reconciled_row_value_witness:
  "add_card_data_to_csv plain_lib (scryfall (PStr ''14.25'')) no_files
         ''Output/mtg_catalog.csv'' ''a47456b8''
     = (fst (add_card_data_to_csv plain_lib (scryfall (PStr ''14.25'')) no_files
         ''Output/mtg_catalog.csv'' ''a47456b8''), None)
   \<and> (\<exists>card_data cid price p rows' i n.
      get_card_details (scryfall (PStr ''14.25'')) ''a47456b8'' = Inr (PDict card_data)
    \<and> map_of card_data ''id'' = Some cid
    \<and> card_price card_data = Inr price \<and> py_float plain_lib price = Inr p
    \<and> fst (add_card_data_to_csv plain_lib (scryfall (PStr ''14.25'')) no_files
         ''Output/mtg_catalog.csv'' ''a47456b8'') ''Output/mtg_catalog.csv''
        = Some (map (csv_line plain_lib) rows')
    \<and> i < length rows' \<and> map_of (rows' ! i) ''id'' = Some cid
    \<and> map_of (rows' ! i) ''number_owned'' = Some (PInt n)
    \<and> map_of (rows' ! i) ''total_value'' = Some (PFloat (of_int n * p))
    \<and> (length (read_rows no_files ''Output/mtg_catalog.csv'') \<le> i \<longrightarrow>
          n = 1 \<and> map_of (rows' ! i) ''price'' = Some price)
    \<and> (\<forall>j < length rows'. j \<noteq> i \<longrightarrow>
          j < length (read_rows no_files ''Output/mtg_catalog.csv'')
          \<and> rows' ! j = read_rows no_files ''Output/mtg_catalog.csv'' ! j))"
proof -
  have ok: "add_card_data_to_csv plain_lib (scryfall (PStr ''14.25'')) no_files
         ''Output/mtg_catalog.csv'' ''a47456b8''
     = (fst (add_card_data_to_csv plain_lib (scryfall (PStr ''14.25'')) no_files
         ''Output/mtg_catalog.csv'' ''a47456b8''), None)"
    using reconcile_new_row(1) by (simp add: prod_eq_iff)
  note t = reconciled_row_value [OF ok]
  show ?thesis
    by (intro conjI ok t)
qed


section \<open>A card seen twice\<close>




end
